theory Spec2Isabelle
  imports Complex_Main "HOL-Library.AList"
begin

text \<open>
  The Governor drives a set of devices (motors, valves) through the named states of a
  configuration, along the transitions it declares. This theory embeds the validator of
  the configuration (\<^verbatim>\<open>cfgmanager.py\<close>) and the engine (\<^verbatim>\<open>components.py\<close>) as functions,
  one per function of the source and under its name (without the leading underscore), and
  proves or refutes what the specification says of them. An exception is a value
  (\<open>py_error\<close>); the hardware, the clock and the other threads are inputs.
\<close>

section \<open>The configuration (cfgmanager.py)\<close>

text \<open>
  The YAML document is a nested mapping. It is modelled by records whose fields are
  optional exactly where the code tests for a key or reads one that may be missing, and by
  association lists (in the order of the document) where the code iterates with
  \<^verbatim>\<open>.items()\<close>; the keys of a mapping are distinct. The name of a position and its
  value are YAML scalars: a string or a number. Numbers are reals (no rounding, no NaN).
\<close>

datatype py_error = KeyError string | IndexError | TypeError | ValueError string

datatype scalar = Str string | Num real

record target_config =
  tc_target :: "scalar option"
  tc_limits :: "real list option"
  tc_updateAfter :: "bool option"

record state_config =
  sc_name :: "string option"
  sc_targets :: "(string \<times> target_config) list option"

record device_config =
  dc_type :: "string option"
  dc_name :: "string option"
  dc_timeout :: "real option"
  dc_pv :: "string option"
  dc_tolerance :: "real option"
  dc_positions :: "(scalar \<times> scalar) list option"

datatype seq_item = Single string | Parallel "string list"

type_synonym transitions_config = "(string \<times> (string \<times> seq_item list) list) list"

record raw_config =
  rc_name :: "string option"
  rc_init_state :: "string option"
  rc_devices :: "(string \<times> device_config) list option"
  rc_states :: "(string \<times> state_config) list option"
  rc_transitions :: "transitions_config option"

text \<open>The test \<^verbatim>\<open>key in mapping\<close> on each kind of mapping.\<close>

definition root_has :: "raw_config \<Rightarrow> string \<Rightarrow> bool" where
  "root_has c k =
     (if k = ''name'' then rc_name c \<noteq> None
      else if k = ''init_state'' then rc_init_state c \<noteq> None
      else if k = ''devices'' then rc_devices c \<noteq> None
      else if k = ''states'' then rc_states c \<noteq> None
      else if k = ''transitions'' then rc_transitions c \<noteq> None
      else False)"

definition device_has :: "device_config \<Rightarrow> string \<Rightarrow> bool" where
  "device_has d k =
     (if k = ''type'' then dc_type d \<noteq> None
      else if k = ''name'' then dc_name d \<noteq> None
      else if k = ''timeout'' then dc_timeout d \<noteq> None
      else if k = ''pv'' then dc_pv d \<noteq> None
      else if k = ''tolerance'' then dc_tolerance d \<noteq> None
      else if k = ''positions'' then dc_positions d \<noteq> None
      else False)"

definition target_has :: "target_config \<Rightarrow> string \<Rightarrow> bool" where
  "target_has t k =
     (if k = ''target'' then tc_target t \<noteq> None
      else if k = ''limits'' then tc_limits t \<noteq> None
      else if k = ''updateAfter'' then tc_updateAfter t \<noteq> None
      else False)"

definition has_key :: "('k \<times> 'v) list \<Rightarrow> 'k \<Rightarrow> bool" where
  "has_key d k = (map_of d k \<noteq> None)"

text \<open>
  \<^verbatim>\<open>device_types_registry\<close> (components.py): the metaclass registers every device class
  under its class name; the value kept here is the class's \<^verbatim>\<open>REQUIRED_FIELDS\<close>.
\<close>

definition device_types_registry :: "(string \<times> string list) list" where
  "device_types_registry =
     [(''Device'', [''name'', ''timeout'']),
      (''Motor'', [''name'', ''timeout'', ''pv'', ''tolerance'', ''positions'']),
      (''Valve'', [''name'', ''timeout'', ''pv''])]"

text \<open>The errors the validator logs, one constructor per message of the source.\<close>

datatype log_msg =
    MissingMandatory string string
  | InvalidInitState string
  | InvalidDeviceType string
  | UnknownDevice string string
  | InvalidTarget string string scalar
  | LimitsInverted string string scalar real real
  | InvalidOrigin string
  | InvalidDestination string
  | TransitionToSelf string
  | InvalidSequenceDevice string string string
  | DeviceNotInDestination string string string

text \<open>
  A check returns its boolean or raises, and in both cases it has logged some errors.
  \<open>chk_and\<close> is the statement sequence \<^verbatim>\<open>if not a: ok = False\<close> followed by
  \<^verbatim>\<open>if not b: ok = False\<close>; \<open>for_each\<close> is a \<^verbatim>\<open>for\<close> loop whose body may clear
  \<^verbatim>\<open>ok\<close>.
\<close>

type_synonym chk = "(py_error + bool) \<times> log_msg list"

definition passed :: chk where
  "passed = (Inr True, [])"

definition failed :: "log_msg \<Rightarrow> chk" where
  "failed m = (Inr False, [m])"

definition raised :: "py_error \<Rightarrow> chk" where
  "raised e = (Inl e, [])"

definition chk_and :: "chk \<Rightarrow> chk \<Rightarrow> chk" where
  "chk_and a b =
     (case a of
        (Inl e, l) \<Rightarrow> (Inl e, l)
      | (Inr x, l) \<Rightarrow>
          (case b of
             (Inl e, l') \<Rightarrow> (Inl e, l @ l')
           | (Inr y, l') \<Rightarrow> (Inr (x \<and> y), l @ l')))"

fun for_each :: "('a \<Rightarrow> chk) \<Rightarrow> 'a list \<Rightarrow> chk" where
  "for_each f [] = passed"
| "for_each f (x # xs) = chk_and (f x) (for_each f xs)"

fun check_mandatory :: "string list \<Rightarrow> (string \<Rightarrow> bool) \<Rightarrow> string \<Rightarrow> chk" where
  "check_mandatory [] has wh = passed"
| "check_mandatory (param # params) has wh =
     chk_and (if \<not> has param then failed (MissingMandatory param wh) else passed)
             (check_mandatory params has wh)"

definition check_root_mandatory :: "raw_config \<Rightarrow> chk" where
  "check_root_mandatory c =
     check_mandatory [''init_state'', ''devices'', ''states''] (root_has c) ''root''"

definition check_type :: "string \<Rightarrow> device_config \<Rightarrow> chk" where
  "check_type name device =
     (case dc_type device of
        None \<Rightarrow> raised (KeyError ''type'')
      | Some t \<Rightarrow>
          if \<not> has_key device_types_registry t then failed (InvalidDeviceType name)
          else passed)"

fun check_device :: "string \<times> device_config \<Rightarrow> chk" where
  "check_device (name, device) =
     (let fmt_name = ''device['' @ name @ '']'' in
      (case check_mandatory [''type''] (device_has device) fmt_name of
         (Inl e, l) \<Rightarrow> (Inl e, l)
       | (Inr False, l) \<Rightarrow> (Inr False, l)
       | (Inr True, l) \<Rightarrow>
           chk_and (Inr True, l)
             (chk_and (check_type name device)
                (case dc_type device of
                   None \<Rightarrow> raised (KeyError ''type'')
                 | Some t \<Rightarrow>
                     (case map_of device_types_registry t of
                        None \<Rightarrow> raised (KeyError t)
                      | Some required_fields \<Rightarrow>
                          check_mandatory required_fields (device_has device) fmt_name)))))"

definition check_devices :: "raw_config \<Rightarrow> chk" where
  "check_devices c =
     (case rc_devices c of
        None \<Rightarrow> raised (KeyError ''devices'')
      | Some devices \<Rightarrow> for_each check_device devices)"

fun check_state_target ::
  "(string \<times> device_config) list \<Rightarrow> string \<Rightarrow> string \<times> target_config \<Rightarrow> chk" where
  "check_state_target devices name (device_name, device_target) =
       (if \<not> has_key devices device_name then failed (UnknownDevice name device_name)
        else
          let wh = ''state['' @ name @ ''] device['' @ device_name @ '']'';
              m = check_mandatory [''target'', ''limits''] (target_has device_target) wh;
              target_name =
                (if fst m = Inr True
                 then (case tc_target device_target of Some t \<Rightarrow> t | None \<Rightarrow> Str [])
                 else Str [])
          in chk_and m
               (case map_of devices device_name of
                  None \<Rightarrow> raised (KeyError device_name)
                | Some cfg \<Rightarrow>
                    (case dc_positions cfg of
                       None \<Rightarrow> passed
                     | Some ps \<Rightarrow>
                         if \<not> has_key ps target_name
                         then (case tc_target device_target of
                                 None \<Rightarrow> raised (KeyError ''target'')
                               | Some t \<Rightarrow> failed (InvalidTarget name device_name t))
                         else passed)))"

definition check_states :: "raw_config \<Rightarrow> chk" where
  "check_states c =
     (case rc_states c of
        None \<Rightarrow> raised (KeyError ''states'')
      | Some states \<Rightarrow>
          for_each
            (\<lambda>(name, state).
               case sc_targets state of
                 None \<Rightarrow> passed
               | Some targets \<Rightarrow>
                   (case rc_devices c of
                      None \<Rightarrow> (if targets = [] then passed else raised (KeyError ''devices''))
                    | Some devices \<Rightarrow> for_each (check_state_target devices name) targets))
            states)"

fun check_limit :: "string \<Rightarrow> string \<times> target_config \<Rightarrow> chk" where
  "check_limit state_name (device, device_target) =
       (case tc_target device_target of
          None \<Rightarrow> raised (KeyError ''target'')
        | Some target_name \<Rightarrow>
            (case tc_limits device_target of
               None \<Rightarrow> raised (KeyError ''limits'')
             | Some limits \<Rightarrow>
                 (case limits of
                    lo # hi # rest \<Rightarrow>
                      if lo > hi
                      then failed (LimitsInverted state_name device target_name lo hi)
                      else passed
                  | _ \<Rightarrow> raised IndexError)))"

definition check_limits :: "raw_config \<Rightarrow> chk" where
  "check_limits c =
     (case rc_states c of
        None \<Rightarrow> raised (KeyError ''states'')
      | Some states \<Rightarrow>
          for_each
            (\<lambda>(state_name, state).
               case sc_targets state of
                 None \<Rightarrow> passed
               | Some targets \<Rightarrow> for_each (check_limit state_name) targets)
            states)"

text \<open>
  The devices a sequence names, gathered into a set by the source; the model keeps one
  copy of each, in one fixed order (the last occurrence of a name is the one kept). The
  order a Python set iterates in is not specified, and only the order of the logged lines
  depends on it.
\<close>

fun item_devices :: "seq_item \<Rightarrow> string list" where
  "item_devices (Single d) = [d]"
| "item_devices (Parallel ds) = ds"

definition sequence_devices :: "seq_item list \<Rightarrow> string list" where
  "sequence_devices sq = remdups (concat (map item_devices sq))"

fun check_destination ::
  "raw_config \<Rightarrow> string \<Rightarrow> string \<times> seq_item list \<Rightarrow> chk" where
  "check_destination c origin (destination, sq) =
       (case rc_states c of
          None \<Rightarrow> raised (KeyError ''states'')
        | Some states \<Rightarrow>
            chk_and (if \<not> has_key states destination
                     then failed (InvalidDestination destination) else passed)
           (chk_and (if origin = destination then failed (TransitionToSelf origin) else passed)
           (chk_and (for_each
                       (\<lambda>device_name.
                          case rc_devices c of
                            None \<Rightarrow> raised (KeyError ''devices'')
                          | Some devices \<Rightarrow>
                              if \<not> has_key devices device_name
                              then failed (InvalidSequenceDevice origin destination device_name)
                              else passed)
                       (sequence_devices sq))
              (case map_of states destination of
                 None \<Rightarrow> raised (KeyError destination)
               | Some destination_state \<Rightarrow>
                   for_each
                     (\<lambda>device_name.
                        case sc_targets destination_state of
                          None \<Rightarrow> raised (KeyError ''targets'')
                        | Some targets \<Rightarrow>
                            if \<not> has_key targets device_name
                            then failed (DeviceNotInDestination origin destination device_name)
                            else passed)
                     (sequence_devices sq)))))"

fun check_origin ::
  "raw_config \<Rightarrow> string \<times> (string \<times> seq_item list) list \<Rightarrow> chk" where
  "check_origin c (origin, transition) =
       (chk_and
          (case rc_states c of
             None \<Rightarrow> raised (KeyError ''states'')
           | Some states \<Rightarrow>
               if \<not> has_key states origin then failed (InvalidOrigin origin) else passed)
          (for_each (check_destination c origin) transition))"

definition check_transitions :: "raw_config \<Rightarrow> chk" where
  "check_transitions c =
     (case rc_transitions c of
        None \<Rightarrow> raised (KeyError ''transitions'')
      | Some transitions \<Rightarrow> for_each (check_origin c) transitions)"

definition check_init_state :: "raw_config \<Rightarrow> chk" where
  "check_init_state c =
     (case rc_init_state c of
        None \<Rightarrow> raised (KeyError ''init_state'')
      | Some i \<Rightarrow>
          (case rc_states c of
             None \<Rightarrow> raised (KeyError ''states'')
           | Some states \<Rightarrow>
               if \<not> has_key states i then failed (InvalidInitState i) else passed))"

text \<open>
  \<^verbatim>\<open>check_config\<close>: the loop \<^verbatim>\<open>for check in checks: if not check(): return False\<close>.
  A check that raises ends the loop with its exception.
\<close>

definition checks :: "(raw_config \<Rightarrow> chk) list" where
  "checks = [check_root_mandatory, check_init_state, check_devices, check_states,
             check_limits, check_transitions]"

fun run_checks :: "(raw_config \<Rightarrow> chk) list \<Rightarrow> raw_config \<Rightarrow> chk" where
  "run_checks [] c = (Inr True, [])"
| "run_checks (check # rest) c =
     (case check c of
        (Inl e, l) \<Rightarrow> (Inl e, l)
      | (Inr False, l) \<Rightarrow> (Inr False, l)
      | (Inr True, l) \<Rightarrow> (case run_checks rest c of (r, l') \<Rightarrow> (r, l @ l')))"

definition check_config :: "raw_config \<Rightarrow> chk" where
  "check_config c = run_checks checks c"


section \<open>The engine (components.py)\<close>

subsection \<open>State\<close>

text \<open>
  A \<^verbatim>\<open>Target\<close> object wraps the configuration node of one device in one state, and a
  \<^verbatim>\<open>Device\<close> wraps the node of its device: both read and write the loaded configuration in
  place. The model keeps one copy of the configuration, in the engine, and names a
  \<^verbatim>\<open>Target\<close> by the state and device whose node it wraps.

  What the hardware answers is part of the state (\<open>hardware\<close>), and so is what the other
  threads will do while a transition runs (\<open>pending\<close>, see below). \<open>committed\<close> holds
  what \<^verbatim>\<open>commit\<close> wrote to the file, oldest first; \<open>trace\<close> the calls made on devices.
  The observer is the one \<^verbatim>\<open>__init__\<close> leaves (none), so \<^verbatim>\<open>_notify_observer\<close> returns at
  once and is left out.
\<close>

datatype status = Idle | Busy | Disabled | Fault

datatype event = DISCONNECT_EVENT | ALARM_EVENT | LIMITS_VIOLATED_EVENT | TIMEOUT_EVENT
  | ABORT_EVENT

datatype dev_class = DeviceC | MotorC | ValveC

type_synonym target = "string \<times> string"

text \<open>
  How the polling loop of \<^verbatim>\<open>wait\<close> ends: the device is done at the first test, done at a
  later one, not done when the time is out (and, for a motor, not moving), or never done
  and never timed out (a motor that keeps moving).
\<close>

datatype wait_result = DoneAtOnce | DoneLater | TimedOut | Never

record hardware =
  hw_val :: "real option"
  hw_rbv :: "real option"
  hw_connected :: bool
  hw_wait :: wait_result

record device =
  dev_class :: dev_class
  dev_target :: "target option"
  dev_homed :: bool
  dev_hw :: hardware

datatype call = Move string target | Wait string | Stop string

text \<open>
  What another thread does between two steps of the transition thread: a call of
  \<^verbatim>\<open>device_event\<close> (\<^verbatim>\<open>Governor.abort\<close> puts \<^verbatim>\<open>ABORT_EVENT\<close>), one of the callbacks the
  I/O library calls on a Motor or a Valve (\<^verbatim>\<open>_value_changed\<close>, \<^verbatim>\<open>_connection_changed\<close>,
  \<^verbatim>\<open>_status_changed\<close>; an exception in a callback stays in its thread), a change of what
  the hardware answers, or one iteration of \<^verbatim>\<open>Governor._worker\<close>.
\<close>

datatype env_action =
    DeviceEvent event "string option"
  | ValueChanged string "real option"
  | ConnectionChanged string bool
  | StatusChanged string int
  | Hardware string hardware
  | WorkerStep

record governor =
  status :: status
  disconnected_devices :: "string list"
  alarmed_devices :: "string list"
  not_homed_devices :: "string list"
  current_state :: string
  next_state :: string
  init_state :: string
  devices :: "(string \<times> device) list"
  transitions :: transitions_config
  config :: raw_config
  committed :: "raw_config list"
  queue :: "(event \<times> string option) list"
  abort_transition :: bool
  trace :: "call list"
  pending :: "env_action list list"

text \<open>A call returns a value, raises, or never returns; the state it leaves comes with it.\<close>

datatype 'a outcome = Returns 'a | Raises py_error | Hangs

type_synonym 'a run = "'a outcome \<times> governor"

subsection \<open>Target and State\<close>

definition state_config_of :: "governor \<Rightarrow> string \<Rightarrow> state_config option" where
  "state_config_of g s = (case rc_states (config g) of None \<Rightarrow> None | Some ss \<Rightarrow> map_of ss s)"

definition state_targets :: "state_config \<Rightarrow> (string \<times> target_config) list" where
  "state_targets st = (case sc_targets st of None \<Rightarrow> [] | Some ts \<Rightarrow> ts)"

definition target_config_of :: "governor \<Rightarrow> target \<Rightarrow> target_config option" where
  "target_config_of g t =
     (case state_config_of g (fst t) of
        None \<Rightarrow> None
      | Some st \<Rightarrow> map_of (state_targets st) (snd t))"

definition get_target :: "governor \<Rightarrow> target \<Rightarrow> py_error + scalar" where
  "get_target g t =
     (case target_config_of g t of
        None \<Rightarrow> Inl (KeyError ''target'')
      | Some tc \<Rightarrow> (case tc_target tc of None \<Rightarrow> Inl (KeyError ''target'') | Some x \<Rightarrow> Inr x))"

definition get_limits :: "governor \<Rightarrow> target \<Rightarrow> py_error + real list" where
  "get_limits g t =
     (case target_config_of g t of
        None \<Rightarrow> Inl (KeyError ''limits'')
      | Some tc \<Rightarrow> (case tc_limits tc of None \<Rightarrow> Inl (KeyError ''limits'') | Some l \<Rightarrow> Inr l))"

definition get_update_after :: "target_config \<Rightarrow> bool" where
  "get_update_after tc = (case tc_updateAfter tc of None \<Rightarrow> False | Some b \<Rightarrow> b)"

definition set_limits :: "target \<Rightarrow> real list \<Rightarrow> raw_config \<Rightarrow> raw_config" where
  "set_limits t new_limits c =
     c\<lparr>rc_states :=
         map_option
           (AList.map_entry (fst t)
              (\<lambda>st. st\<lparr>sc_targets :=
                 map_option (AList.map_entry (snd t) (\<lambda>tc. tc\<lparr>tc_limits := Some new_limits\<rparr>))
                   (sc_targets st)\<rparr>))
           (rc_states c)\<rparr>"

subsection \<open>Device, Motor and Valve\<close>

definition device_config_of :: "governor \<Rightarrow> string \<Rightarrow> device_config option" where
  "device_config_of g name =
     (case rc_devices (config g) of None \<Rightarrow> None | Some ds \<Rightarrow> map_of ds name)"

definition valve_positions :: "(scalar \<times> scalar) list" where
  "valve_positions = [(Str ''Open'', Num 1), (Str ''Closed'', Num 0)]"

definition device_positions :: "governor \<Rightarrow> string \<Rightarrow> (scalar \<times> scalar) list" where
  "device_positions g name =
     (case map_of (devices g) name of
        None \<Rightarrow> []
      | Some dev \<Rightarrow>
          (case dev_class dev of
             ValveC \<Rightarrow> valve_positions
           | _ \<Rightarrow>
               (case device_config_of g name of
                  None \<Rightarrow> []
                | Some cfg \<Rightarrow> (case dc_positions cfg of None \<Rightarrow> [] | Some ps \<Rightarrow> ps))))"

text \<open>\<^verbatim>\<open>positions.get(t, t)\<close>: the value of the position named \<open>t\<close>, or \<open>t\<close> itself.\<close>

definition position_value :: "(scalar \<times> scalar) list \<Rightarrow> scalar \<Rightarrow> scalar" where
  "position_value ps t = (case map_of ps t of None \<Rightarrow> t | Some v \<Rightarrow> v)"

definition device_target :: "governor \<Rightarrow> string \<Rightarrow> target option" where
  "device_target g name =
     (case map_of (devices g) name of None \<Rightarrow> None | Some dev \<Rightarrow> dev_target dev)"

definition target_pos :: "governor \<Rightarrow> string \<Rightarrow> py_error + scalar option" where
  "target_pos g name =
     (case device_target g name of
        None \<Rightarrow> Inr None
      | Some t \<Rightarrow>
          (case get_target g t of
             Inl e \<Rightarrow> Inl e
           | Inr x \<Rightarrow> Inr (Some (position_value (device_positions g name) x))))"

definition device_val :: "governor \<Rightarrow> string \<Rightarrow> py_error + scalar option" where
  "device_val g name =
     (case map_of (devices g) name of
        None \<Rightarrow> Inl (KeyError name)
      | Some dev \<Rightarrow>
          (case dev_class dev of
             DeviceC \<Rightarrow> target_pos g name
           | _ \<Rightarrow> Inr (map_option Num (hw_val (dev_hw dev)))))"

definition device_event :: "event \<Rightarrow> string option \<Rightarrow> governor \<Rightarrow> governor" where
  "device_event ev d g = g\<lparr>queue := queue g @ [(ev, d)]\<rparr>"

text \<open>
  \<^verbatim>\<open>TGTS[i]\<close> in the valve's warning: a list of two, indexed by an integer (a negative one
  counts from the end). The status of a valve is read as an integer; the model has one kind
  of number, so a reading that is a whole number counts as one, where the source would
  raise TypeError on a float such as 0.0.
\<close>

definition tgts_index :: "real \<Rightarrow> py_error + unit" where
  "tgts_index i =
     (if of_int \<lfloor>i\<rfloor> \<noteq> i then Inl TypeError
      else if i = 0 \<or> i = 1 \<or> i = - 1 \<or> i = - 2 then Inr ()
      else Inl IndexError)"

text \<open>
  \<^verbatim>\<open>_value_changed\<close> of Motor and Valve, up to the event: whether the value is out of the
  band of the current target. The lookups and the arithmetic raise in the order the source
  evaluates them. The bounds are sums of exact reals: a value within one rounding error of
  a bound can fall on the other side of it in the source's floating point.
\<close>

definition limits_violated ::
  "governor \<Rightarrow> string \<Rightarrow> dev_class \<Rightarrow> real option \<Rightarrow> py_error + bool" where
  "limits_violated g name cls v =
     (case target_pos g name of
        Inl e \<Rightarrow> Inl e
      | Inr None \<Rightarrow> Inr False
      | Inr (Some p) \<Rightarrow>
          (case device_target g name of
             None \<Rightarrow> Inr False
           | Some t \<Rightarrow>
               (case get_limits g t of
                  Inl e \<Rightarrow> Inl e
                | Inr [] \<Rightarrow> Inl IndexError
                | Inr (lo # his) \<Rightarrow>
                    (case p of
                       Str s \<Rightarrow> Inl TypeError
                     | Num x \<Rightarrow>
                         (case (if cls = MotorC
                                then (case device_config_of g name of
                                        None \<Rightarrow> None
                                      | Some cfg \<Rightarrow> dc_tolerance cfg)
                                else Some 0) of
                            None \<Rightarrow> Inl (KeyError ''tolerance'')
                          | Some tol \<Rightarrow>
                              (case his of
                                 [] \<Rightarrow> Inl IndexError
                               | hi # rest \<Rightarrow>
                                   (case v of
                                      None \<Rightarrow> Inl TypeError
                                    | Some y \<Rightarrow>
                                        if y < x + lo - tol \<or> y > x + hi + tol
                                        then (if cls = ValveC
                                              then (case tgts_index y of
                                                      Inl e \<Rightarrow> Inl e
                                                    | Inr u \<Rightarrow>
                                                        (case tgts_index x of
                                                           Inl e \<Rightarrow> Inl e
                                                         | Inr u \<Rightarrow> Inr True))
                                              else Inr True)
                                        else Inr False)))))))"

definition value_changed :: "string \<Rightarrow> real option \<Rightarrow> governor \<Rightarrow> unit run" where
  "value_changed name v g =
     (case map_of (devices g) name of
        None \<Rightarrow> (Raises (KeyError name), g)
      | Some dev \<Rightarrow>
          (case dev_class dev of
             DeviceC \<Rightarrow> (Returns (), g)
           | cls \<Rightarrow>
               (case limits_violated g name cls v of
                  Inl e \<Rightarrow> (Raises e, g)
                | Inr False \<Rightarrow> (Returns (), g)
                | Inr True \<Rightarrow>
                    (Returns (), device_event LIMITS_VIOLATED_EVENT (Some name) g))))"

definition store_target :: "string \<Rightarrow> target option \<Rightarrow> governor \<Rightarrow> governor" where
  "store_target name t g =
     g\<lparr>devices := AList.map_entry name (\<lambda>dev. dev\<lparr>dev_target := t\<rparr>) (devices g)\<rparr>"

text \<open>
  The setter of \<^verbatim>\<open>target\<close>: it stores the target; a Motor or a Valve given a target (not
  None) then checks the value it reads (\<^verbatim>\<open>_rbv\<close> for the motor, \<^verbatim>\<open>_val\<close> for the valve).
\<close>

definition device_set_target :: "string \<Rightarrow> target option \<Rightarrow> governor \<Rightarrow> unit run" where
  "device_set_target name t g =
     (case map_of (devices g) name of
        None \<Rightarrow> (Raises (KeyError name), g)
      | Some dev \<Rightarrow>
          (if t = None then (Returns (), store_target name t g)
           else
             (case dev_class dev of
                DeviceC \<Rightarrow> (Returns (), store_target name t g)
              | MotorC \<Rightarrow> value_changed name (hw_rbv (dev_hw dev)) (store_target name t g)
              | ValveC \<Rightarrow> value_changed name (hw_val (dev_hw dev)) (store_target name t g))))"

definition device_move :: "string \<Rightarrow> target \<Rightarrow> governor \<Rightarrow> bool run" where
  "device_move name t g =
     (case map_of (devices g) name of
        None \<Rightarrow> (Raises (KeyError name), g)
      | Some dev \<Rightarrow>
          (let g1 = store_target name None (g\<lparr>trace := trace g @ [Move name t]\<rparr>) in
           (case get_target g1 t of
              Inl e \<Rightarrow> (Raises e, g1)
            | Inr tt \<Rightarrow>
                (case dev_class dev of
                   ValveC \<Rightarrow>
                     if tt = Str ''Open'' then (Returns True, g1)
                     else if tt = Str ''Closed'' then (Returns True, g1)
                     else (Raises (ValueError ''Invalid target''), g1)
                 | _ \<Rightarrow> (Returns True, g1)))))"

definition device_wait :: "string \<Rightarrow> governor \<Rightarrow> bool run" where
  "device_wait name g =
     (case map_of (devices g) name of
        None \<Rightarrow> (Raises (KeyError name), g)
      | Some dev \<Rightarrow>
          (let g1 = g\<lparr>trace := trace g @ [Wait name]\<rparr>;
               timeout = (case device_config_of g name of
                            None \<Rightarrow> None
                          | Some cfg \<Rightarrow> dc_timeout cfg)
           in case dev_class dev of
                DeviceC \<Rightarrow> (Returns True, g1)
              | MotorC \<Rightarrow>
                  (case hw_wait (dev_hw dev) of
                     DoneAtOnce \<Rightarrow> (Returns True, g1)
                   | w \<Rightarrow>
                       if timeout = None then (Raises (KeyError ''timeout''), g1)
                       else if w = DoneLater then (Returns True, g1)
                       else if w = TimedOut
                       then (Returns False, device_event TIMEOUT_EVENT None g1)
                       else (Hangs, g1))
              | ValveC \<Rightarrow>
                  if timeout = None then (Raises (KeyError ''timeout''), g1)
                  else if hw_wait (dev_hw dev) = DoneAtOnce \<or> hw_wait (dev_hw dev) = DoneLater
                  then (Returns True, g1)
                  else (Returns False, device_event TIMEOUT_EVENT None g1)))"

definition device_stop :: "string \<Rightarrow> governor \<Rightarrow> governor" where
  "device_stop name g = g\<lparr>trace := trace g @ [Stop name]\<rparr>"

definition device_connected :: "device \<Rightarrow> bool" where
  "device_connected dev = (case dev_class dev of DeviceC \<Rightarrow> True | _ \<Rightarrow> hw_connected (dev_hw dev))"

definition device_alarmed :: "device \<Rightarrow> bool" where
  "device_alarmed dev = False"

definition device_homed :: "device \<Rightarrow> bool" where
  "device_homed dev = (case dev_class dev of MotorC \<Rightarrow> dev_homed dev | _ \<Rightarrow> True)"

subsection \<open>Governor\<close>

definition enabled :: "governor \<Rightarrow> bool" where
  "enabled g = (status g \<noteq> Disabled)"

definition fault :: "governor \<Rightarrow> bool" where
  "fault g = (status g = Fault)"

fun join :: "string \<Rightarrow> string list \<Rightarrow> string" where
  "join sep [] = []"
| "join sep [x] = x"
| "join sep (x # y # ys) = x @ sep @ join sep (y # ys)"

definition status_message :: "governor \<Rightarrow> string" where
  "status_message g =
     (if fault g then
        let disconn = (''disconn'', disconnected_devices g);
            alarmed = (''alarm'', alarmed_devices g);
            not_homed = (''!homed'', not_homed_devices g);
            err = foldl (\<lambda>err (name, device_list).
                           if device_list \<noteq> []
                           then err @ [name @ ''('' @ join '','' device_list @ '')'']
                           else err)
                    [] [disconn, alarmed, not_homed]
        in join '' '' err
      else if next_state g = current_state g then ''state '' @ current_state g
      else ''transition '' @ current_state g @ '' to '' @ next_state g)"

definition clear_targets :: "governor \<Rightarrow> governor" where
  "clear_targets g = g\<lparr>devices := map (\<lambda>(n, dev). (n, dev\<lparr>dev_target := None\<rparr>)) (devices g)\<rparr>"

definition set_state :: "string \<Rightarrow> bool \<Rightarrow> governor \<Rightarrow> governor" where
  "set_state state force g =
     (if current_state g \<noteq> state \<or> force then
        let g1 = g\<lparr>current_state := state, next_state := state\<rparr>
        in if state = init_state g1 then clear_targets g1 else g1
      else g)"

definition commit :: "governor \<Rightarrow> governor" where
  "commit g = g\<lparr>committed := committed g @ [config g]\<rparr>"

text \<open>\<^verbatim>\<open>LIMIT_LOW\<close> is 0 and \<^verbatim>\<open>LIMIT_HIGH\<close> is 1; any other \<open>limit\<close> edits the high bound.\<close>

definition LIMIT_LOW :: int where
  "LIMIT_LOW = 0"

definition LIMIT_HIGH :: int where
  "LIMIT_HIGH = 1"

definition set_state_device_limit ::
  "string \<Rightarrow> string \<Rightarrow> int \<Rightarrow> real \<Rightarrow> governor \<Rightarrow> bool run" where
  "set_state_device_limit state dev limit v g =
     (case state_config_of g state of
        None \<Rightarrow> (Raises (KeyError state), g)
      | Some st \<Rightarrow>
          (case map_of (state_targets st) dev of
             None \<Rightarrow> (Raises (KeyError dev), g)
           | Some tc \<Rightarrow>
               (case tc_limits tc of
                  None \<Rightarrow> (Raises (KeyError ''limits''), g)
                | Some old_limits \<Rightarrow>
                    (case (if limit = LIMIT_LOW
                           then (case old_limits of
                                   lo # hi # rest \<Rightarrow> Inr (v, hi)
                                 | _ \<Rightarrow> Inl IndexError)
                           else (case old_limits of
                                   lo # rest \<Rightarrow> Inr (lo, v)
                                 | _ \<Rightarrow> Inl IndexError)) of
                       Inl e \<Rightarrow> (Raises e, g)
                     | Inr new_limits \<Rightarrow>
                         if fst new_limits > snd new_limits then (Returns False, g)
                         else (Returns True,
                               commit (g\<lparr>config :=
                                 set_limits (state, dev) [fst new_limits, snd new_limits]
                                   (config g)\<rparr>))))))"

text \<open>
  \<^verbatim>\<open>positions[position] = value\<close> on what the property \<^verbatim>\<open>positions\<close> returns: the mapping of
  the configuration when the device has one, and a mapping built for the occasion
  otherwise (a valve's, or the default \<^verbatim>\<open>{}\<close>), whose update nothing keeps.
\<close>

definition write_position :: "string \<Rightarrow> scalar \<Rightarrow> scalar \<Rightarrow> raw_config \<Rightarrow> raw_config" where
  "write_position dev position v c =
     c\<lparr>rc_devices :=
         map_option
           (AList.map_entry dev
              (\<lambda>cfg. cfg\<lparr>dc_positions := map_option (AList.update position v) (dc_positions cfg)\<rparr>))
           (rc_devices c)\<rparr>"

definition set_device_position ::
  "string \<Rightarrow> scalar \<Rightarrow> scalar option \<Rightarrow> governor \<Rightarrow> bool run" where
  "set_device_position dev position v g =
     (case v of
        Some x \<Rightarrow>
          (case map_of (devices g) dev of
             None \<Rightarrow> (Raises (KeyError dev), g)
           | Some d \<Rightarrow>
               (Returns True,
                commit (case dev_class d of
                          ValveC \<Rightarrow> g
                        | _ \<Rightarrow> g\<lparr>config := write_position dev position x (config g)\<rparr>)))
      | None \<Rightarrow> (Returns True, g))"

subsection \<open>Construction\<close>

text \<open>
  \<open>plant\<close> gives what the hardware of each device answers when the engine is built. The
  constructor of a Motor or a Valve reads \<^verbatim>\<open>pv\<close>.
\<close>

fun make_device :: "(string \<Rightarrow> hardware) \<Rightarrow> string \<times> device_config \<Rightarrow> py_error + string \<times> device" where
  "make_device plant (name, cfg) =
     (case dc_type cfg of
        None \<Rightarrow> Inl (KeyError ''type'')
      | Some t \<Rightarrow>
          (let fresh = \<lambda>cls. \<lparr>dev_class = cls, dev_target = None, dev_homed = False,
                              dev_hw = plant name\<rparr>
           in if t = ''Device'' then Inr (name, fresh DeviceC)
              else if t = ''Motor''
              then (case dc_pv cfg of None \<Rightarrow> Inl (KeyError ''pv'') | Some pv \<Rightarrow> Inr (name, fresh MotorC))
              else if t = ''Valve''
              then (case dc_pv cfg of None \<Rightarrow> Inl (KeyError ''pv'') | Some pv \<Rightarrow> Inr (name, fresh ValveC))
              else Inl (KeyError t)))"

fun make_devices ::
  "(string \<Rightarrow> hardware) \<Rightarrow> (string \<times> device_config) list \<Rightarrow> (string \<times> device) list
     \<Rightarrow> py_error + (string \<times> device) list" where
  "make_devices plant [] acc = Inr acc"
| "make_devices plant (nd # rest) acc =
     (case make_device plant nd of
        Inl e \<Rightarrow> Inl e
      | Inr d \<Rightarrow> make_devices plant rest (AList.update (fst d) (snd d) acc))"

text \<open>
  The transitions of one origin: the implicit one to the initial state first (the source
  stores \<^verbatim>\<open>{}\<close>, which a loop runs through as an empty sequence), then the declared ones,
  each stored under its destination.
\<close>

definition make_transitions ::
  "string \<Rightarrow> string \<Rightarrow> (string \<times> seq_item list) list \<Rightarrow> (string \<times> seq_item list) list" where
  "make_transitions init origin transition =
     foldl (\<lambda>m (destination, sq). AList.update destination sq m)
       (if origin \<noteq> init then [(init, [])] else [])
       transition"

definition parse_config ::
  "(string \<Rightarrow> hardware) \<Rightarrow> raw_config
     \<Rightarrow> py_error + (string \<times> device) list \<times> string \<times> transitions_config" where
  "parse_config plant c =
     (case rc_devices c of
        None \<Rightarrow> Inl (KeyError ''devices'')
      | Some ds \<Rightarrow>
          (case make_devices plant ds [] of
             Inl e \<Rightarrow> Inl e
           | Inr devs \<Rightarrow>
               (case rc_states c of
                  None \<Rightarrow> Inl (KeyError ''states'')
                | Some ss \<Rightarrow>
                    (case rc_init_state c of
                       None \<Rightarrow> Inl (KeyError ''init_state'')
                     | Some init \<Rightarrow>
                         (case rc_transitions c of
                            None \<Rightarrow> Inl (KeyError ''transitions'')
                          | Some tr \<Rightarrow>
                              Inr (devs, init,
                                   foldl (\<lambda>m (origin, transition).
                                            AList.update origin
                                              (make_transitions init origin transition) m)
                                     [] tr))))))"

text \<open>
  \<^verbatim>\<open>Governor.__init__\<close>. Its last step, \<^verbatim>\<open>set_state(init_state)\<close> on an engine whose
  current state is still None, makes the initial state the current and the next one; the
  devices it clears have no target yet.
\<close>

definition new_governor :: "(string \<Rightarrow> hardware) \<Rightarrow> raw_config \<Rightarrow> py_error + governor" where
  "new_governor plant c =
     (case parse_config plant c of
        Inl e \<Rightarrow> Inl e
      | Inr (devs, init, trs) \<Rightarrow>
          Inr \<lparr>status = Idle, disconnected_devices = [], alarmed_devices = [],
               not_homed_devices = [], current_state = init, next_state = init,
               init_state = init, devices = devs, transitions = trs, config = c,
               committed = [], queue = [], abort_transition = False, trace = [],
               pending = []\<rparr>)"

definition reachable_states :: "governor \<Rightarrow> string option \<Rightarrow> py_error + string list" where
  "reachable_states g origin =
     (let origin = (case origin of None \<Rightarrow> current_state g | Some s \<Rightarrow> s)
      in case map_of (transitions g) origin of
           None \<Rightarrow> Inl (KeyError origin)
         | Some ts \<Rightarrow> Inr (origin # map fst ts))"

subsection \<open>The supervisor and the other threads\<close>

definition check_fault_state :: "governor \<Rightarrow> governor" where
  "check_fault_state g =
     (let g1 = g\<lparr>disconnected_devices := map fst (filter (\<lambda>(n, dev). \<not> device_connected dev) (devices g)),
                 alarmed_devices := map fst (filter (\<lambda>(n, dev). device_alarmed dev) (devices g)),
                 not_homed_devices := map fst (filter (\<lambda>(n, dev). \<not> device_homed dev) (devices g))\<rparr>
      in if enabled g1 then
           if disconnected_devices g1 \<noteq> [] \<or> alarmed_devices g1 \<noteq> [] \<or> not_homed_devices g1 \<noteq> []
           then set_state (init_state g1) False (g1\<lparr>status := Fault\<rparr>)
           else if fault g1 then set_state (init_state g1) False (g1\<lparr>status := Idle\<rparr>)
           else g1
         else g1)"

definition worker_step :: "governor \<Rightarrow> governor" where
  "worker_step g =
     (case queue g of
        [] \<Rightarrow> check_fault_state g
      | (ev, dev) # rest \<Rightarrow>
          (let g1 = g\<lparr>queue := rest, abort_transition := True\<rparr>;
               g2 = set_state (init_state g1) True g1;
               g3 = (if ev = ABORT_EVENT then foldl (\<lambda>h n. device_stop n h) g2 (map fst (devices g2))
                     else g2)
           in check_fault_state g3))"

definition update_device :: "string \<Rightarrow> (device \<Rightarrow> device) \<Rightarrow> governor \<Rightarrow> governor" where
  "update_device name f g = g\<lparr>devices := AList.map_entry name f (devices g)\<rparr>"

fun env_step :: "governor \<Rightarrow> env_action \<Rightarrow> governor" where
  "env_step g (DeviceEvent ev d) = device_event ev d g"
| "env_step g (ValueChanged name v) =
     (case value_changed name v g of (Returns u, g1) \<Rightarrow> g1 | (r, g1) \<Rightarrow> g)"
| "env_step g (ConnectionChanged name conn) =
     (case map_of (devices g) name of
        None \<Rightarrow> g
      | Some dev \<Rightarrow>
          if dev_class dev \<noteq> DeviceC \<and> \<not> conn
          then device_event DISCONNECT_EVENT (Some name) g else g)"
| "env_step g (StatusChanged name v) =
     update_device name
       (\<lambda>dev. if dev_class dev = MotorC then dev\<lparr>dev_homed := (v div 16384) mod 2 = 1\<rparr> else dev) g"
| "env_step g (Hardware name hw) = update_device name (\<lambda>dev. dev\<lparr>dev_hw := hw\<rparr>) g"
| "env_step g WorkerStep = worker_step g"

text \<open>
  Where the transition thread lets the others run: they do the next batch of \<open>pending\<close>.
  The transition thread does so where it reads what the supervisor writes for it: before
  each test of \<^verbatim>\<open>_abort_transition\<close> inside a step (so also after the \<^verbatim>\<open>wait\<close> of a
  device, where it has slept), and before each test of \<^verbatim>\<open>fault\<close>, that is before the
  first step and after each step, the last of which is before the test that ends the
  transition. An empty \<open>pending\<close> is a transition that runs alone.
\<close>

definition yield :: "governor \<Rightarrow> governor" where
  "yield g =
     (case pending g of
        [] \<Rightarrow> g
      | batch # rest \<Rightarrow> foldl env_step (g\<lparr>pending := rest\<rparr>) batch)"

subsection \<open>Transitions\<close>

text \<open>
  \<^verbatim>\<open>targets[i]\<close> in the dictionary of the destination's targets, and the pairs of one step
  of the sequence (a device, then its target, for each name in turn).
\<close>

fun step_devices ::
  "governor \<Rightarrow> (string \<times> target) list \<Rightarrow> string list \<Rightarrow> py_error + (string \<times> target) list" where
  "step_devices g targets [] = Inr []"
| "step_devices g targets (i # rest) =
     (case map_of (devices g) i of
        None \<Rightarrow> Inl (KeyError i)
      | Some dev \<Rightarrow>
          (case map_of targets i of
             None \<Rightarrow> Inl (KeyError i)
           | Some t \<Rightarrow>
               (case step_devices g targets rest of
                  Inl e \<Rightarrow> Inl e
                | Inr ds \<Rightarrow> Inr ((i, t) # ds))))"

fun move_phase :: "(string \<times> target) list \<Rightarrow> governor \<Rightarrow> unit run" where
  "move_phase [] g = (Returns (), g)"
| "move_phase ((name, t) # rest) g =
     (let g1 = yield g
      in if \<not> abort_transition g1
         then (case device_move name t g1 of
                 (Returns b, g2) \<Rightarrow> move_phase rest g2
               | (Raises e, g2) \<Rightarrow> (Raises e, g2)
               | (Hangs, g2) \<Rightarrow> (Hangs, g2))
         else move_phase rest g1)"

fun wait_phase :: "(string \<times> target) list \<Rightarrow> governor \<Rightarrow> unit run" where
  "wait_phase [] g = (Returns (), g)"
| "wait_phase ((name, t) # rest) g =
     (let g1 = yield g
      in case (if \<not> abort_transition g1 then device_wait name g1 else (Returns True, g1)) of
           (Raises e, g2) \<Rightarrow> (Raises e, g2)
         | (Hangs, g2) \<Rightarrow> (Hangs, g2)
         | (Returns b, g2) \<Rightarrow>
             (let g3 = yield g2
              in case (if \<not> abort_transition g3 then device_set_target name (Some t) g3
                       else (Returns (), g3)) of
                   (Raises e, g4) \<Rightarrow> (Raises e, g4)
                 | (Hangs, g4) \<Rightarrow> (Hangs, g4)
                 | (Returns u, g4) \<Rightarrow> wait_phase rest g4))"

text \<open>
  The loop over the sequence. \<open>None\<close> is the \<^verbatim>\<open>return\<close> on a fault, and otherwise the
  loop gives the names it has added to \<^verbatim>\<open>moved_devices\<close>.
\<close>

fun move_loop ::
  "(string \<times> target) list \<Rightarrow> seq_item list \<Rightarrow> string list \<Rightarrow> governor
     \<Rightarrow> string list option run" where
  "move_loop targets [] moved g = (Returns (Some moved), g)"
| "move_loop targets (item # rest) moved g =
     (if fault g then (Returns None, g)
      else
        (case step_devices g targets (item_devices item) of
           Inl e \<Rightarrow> (Raises e, g)
         | Inr ds \<Rightarrow>
             (case move_phase ds g of
                (Raises e, g1) \<Rightarrow> (Raises e, g1)
              | (Hangs, g1) \<Rightarrow> (Hangs, g1)
              | (Returns u, g1) \<Rightarrow>
                  (case wait_phase ds g1 of
                     (Raises e, g2) \<Rightarrow> (Raises e, g2)
                   | (Hangs, g2) \<Rightarrow> (Hangs, g2)
                   | (Returns u, g2) \<Rightarrow>
                       move_loop targets rest (moved @ map fst ds) (yield g2)))))"

text \<open>The positions marked \<^verbatim>\<open>updateAfter\<close> in the state that is left.\<close>

fun write_back :: "(string \<times> target_config) list \<Rightarrow> governor \<Rightarrow> unit run" where
  "write_back [] g = (Returns (), g)"
| "write_back ((dev, tc) # rest) g =
     (if get_update_after tc then
        (case tc_target tc of
           None \<Rightarrow> (Raises (KeyError ''target''), g)
         | Some position \<Rightarrow>
             (case device_val g dev of
                Inl e \<Rightarrow> (Raises e, g)
              | Inr v \<Rightarrow>
                  (case set_device_position dev position v g of
                     (Returns b, g1) \<Rightarrow> write_back rest g1
                   | (Raises e, g1) \<Rightarrow> (Raises e, g1)
                   | (Hangs, g1) \<Rightarrow> (Hangs, g1))))
      else write_back rest g)"

definition clear_unmoved :: "string list \<Rightarrow> governor \<Rightarrow> governor" where
  "clear_unmoved moved g =
     g\<lparr>devices := map (\<lambda>(n, dev). if n \<in> set moved then (n, dev) else (n, dev\<lparr>dev_target := None\<rparr>))
                     (devices g)\<rparr>"

text \<open>\<^verbatim>\<open>Governor._do_transition\<close>.\<close>

definition do_transition_inner :: "string \<Rightarrow> governor \<Rightarrow> unit run" where
  "do_transition_inner dest g =
     (let origin = current_state g in
      if \<not> enabled g then (Returns (), g)
      else
        (case reachable_states g None of
           Inl e \<Rightarrow> (Raises e, g)
         | Inr reach \<Rightarrow>
             if dest \<notin> set reach then (Returns (), g)
             else
               (case state_config_of g origin of
                  None \<Rightarrow> (Raises (KeyError origin), g)
                | Some origin_state \<Rightarrow>
                    (case state_config_of g dest of
                       None \<Rightarrow> (Raises (KeyError dest), g)
                     | Some dest_state \<Rightarrow>
                         (let g1 = g\<lparr>next_state := dest\<rparr> in
                          if origin = dest then (Returns (), g1)
                          else
                            (case write_back (state_targets origin_state) g1 of
                               (Raises e, g2) \<Rightarrow> (Raises e, g2)
                             | (Hangs, g2) \<Rightarrow> (Hangs, g2)
                             | (Returns u, g2) \<Rightarrow>
                                 (case map_of (transitions g2) origin of
                                    None \<Rightarrow> (Raises (KeyError origin), g2)
                                  | Some ts \<Rightarrow>
                                      (case map_of ts dest of
                                         None \<Rightarrow> (Raises (KeyError dest), g2)
                                       | Some device_sequence \<Rightarrow>
                                           (let targets = map (\<lambda>(d, tc). (d, (dest, d)))
                                                            (state_targets dest_state)
                                            in case move_loop targets device_sequence []
                                                      (yield g2) of
                                                 (Raises e, g3) \<Rightarrow> (Raises e, g3)
                                               | (Hangs, g3) \<Rightarrow> (Hangs, g3)
                                               | (Returns None, g3) \<Rightarrow> (Returns (), g3)
                                               | (Returns (Some moved), g3) \<Rightarrow>
                                                   (Returns (),
                                                    clear_unmoved moved
                                                      (if \<not> fault g3 \<and> \<not> abort_transition g3
                                                       then set_state dest False g3
                                                       else g3)))))))))))"

text \<open>
  \<^verbatim>\<open>Governor.do_transition\<close>: an exception of \<^verbatim>\<open>_do_transition\<close> is caught and logged.
\<close>

definition do_transition :: "string \<Rightarrow> governor \<Rightarrow> unit run" where
  "do_transition dest g =
     (let g1 = g\<lparr>status := Busy, abort_transition := False\<rparr>
      in case do_transition_inner dest g1 of
           (Hangs, g2) \<Rightarrow> (Hangs, g2)
         | (r, g2) \<Rightarrow>
             (Returns (),
              g2\<lparr>status := (if status g2 = Busy then Idle else status g2),
                 abort_transition := False\<rparr>))"

definition is_move :: "call \<Rightarrow> bool" where
  "is_move c = (case c of Move n t \<Rightarrow> True | _ \<Rightarrow> False)"

text \<open>
  A transition in progress that has been neither aborted nor faulted: \<^verbatim>\<open>do_transition\<close>
  has made the status Busy and cleared the abort flag, the supervisor sets the flag when it
  handles an event, and a health scan that finds a device unhealthy makes the status Fault
  (it is Idle, not Busy, once the devices are healthy again).
\<close>

definition undisturbed :: "governor \<Rightarrow> bool" where
  "undisturbed g = (status g = Busy \<and> \<not> abort_transition g)"

text \<open>
  The fields that only the supervisor and the operations of the engine write: two states
  agree on them when a device call lies between them.
\<close>

definition same_control :: "governor \<Rightarrow> governor \<Rightarrow> bool" where
  "same_control g g' =
     (abort_transition g' = abort_transition g \<and> status g' = status g
      \<and> current_state g' = current_state g \<and> init_state g' = init_state g)"



section \<open>Example configurations\<close>

text \<open>
  A valve and a motor, two states, and the states and transitions the witnesses and
  counterexamples below are evaluated on.
\<close>

definition valve_cfg :: device_config where
  "valve_cfg = \<lparr>dc_type = Some ''Valve'', dc_name = Some ''Gate valve'', dc_timeout = Some 5,
                 dc_pv = Some ''XF:GV1'', dc_tolerance = None, dc_positions = None\<rparr>"

definition motor_cfg :: device_config where
  "motor_cfg = \<lparr>dc_type = Some ''Motor'', dc_name = Some ''Stage'', dc_timeout = Some 10,
                 dc_pv = Some ''XF:M1'', dc_tolerance = Some (1/10),
                 dc_positions = Some [(Str ''In'', Num 12), (Str ''Out'', Num 0)]\<rparr>"

definition on_state :: state_config where
  "on_state = \<lparr>sc_name = Some ''Beam on'',
                sc_targets = Some [(''valve'', \<lparr>tc_target = Some (Str ''Open''), tc_limits = Some [0, 0], tc_updateAfter = None\<rparr>),
                                   (''motor'', \<lparr>tc_target = Some (Str ''In''), tc_limits = Some [-1, 1], tc_updateAfter = Some True\<rparr>)]\<rparr>"

definition off_state :: state_config where
  "off_state = \<lparr>sc_name = None, sc_targets = None\<rparr>"

definition example_config :: raw_config where
  "example_config = \<lparr>rc_name = Some ''Example'', rc_init_state = Some ''Off'',
      rc_devices = Some [(''valve'', valve_cfg), (''motor'', motor_cfg)],
      rc_states = Some [(''Off'', off_state), (''On'', on_state)],
      rc_transitions = Some [(''Off'', [(''On'', [Single ''valve'', Parallel [''motor'']])]), (''On'', [])]\<rparr>"

definition two_errors_config :: raw_config where
  "two_errors_config = example_config
     \<lparr>rc_init_state := Some ''Nowhere'',
      rc_states := Some [(''Off'', off_state),
        (''On'', \<lparr>sc_name = None, sc_targets = Some [(''valve'',
           \<lparr>tc_target = Some (Str ''Open''), tc_limits = Some [1, 0], tc_updateAfter = None\<rparr>)]\<rparr>)]\<rparr>"

definition no_transitions_config :: raw_config where
  "no_transitions_config = example_config\<lparr>rc_transitions := None\<rparr>"

definition undeclared_destination_config :: raw_config where
  "undeclared_destination_config = example_config\<lparr>rc_transitions := Some [(''Off'', [(''Up'', [])])]\<rparr>"

text \<open>
  The hardware: the valve reports open and the motor stands at 12.1, within the band of
  its position \<open>In\<close>; both finish their moves.
\<close>

definition example_plant :: "string \<Rightarrow> hardware" where
  "example_plant name =
     (if name = ''valve''
      then \<lparr>hw_val = Some 1, hw_rbv = None, hw_connected = True, hw_wait = DoneLater\<rparr>
      else \<lparr>hw_val = Some 12, hw_rbv = Some (121 / 10), hw_connected = True,
            hw_wait = DoneLater\<rparr>)"

definition example_devices :: "(string \<times> device) list" where
  "example_devices =
     [(''valve'', \<lparr>dev_class = ValveC, dev_target = None, dev_homed = False,
                   dev_hw = example_plant ''valve''\<rparr>),
      (''motor'', \<lparr>dev_class = MotorC, dev_target = None, dev_homed = False,
                   dev_hw = example_plant ''motor''\<rparr>)]"

definition example_governor :: governor where
  "example_governor =
     \<lparr>status = Idle, disconnected_devices = [], alarmed_devices = [],
      not_homed_devices = [], current_state = ''Off'', next_state = ''Off'',
      init_state = ''Off'', devices = example_devices,
      transitions = [(''Off'', [(''On'', [Single ''valve'', Parallel [''motor'']])]),
                     (''On'', [(''Off'', [])])],
      config = example_config, committed = [], queue = [], abort_transition = False,
      trace = [], pending = []\<rparr>"

text \<open>A configuration that declares no transition out of \<open>On\<close>, and its engine.\<close>

definition one_way_config :: raw_config where
  "one_way_config = example_config
     \<lparr>rc_transitions := Some [(''Off'', [(''On'', [Single ''valve'', Parallel [''motor'']])])]\<rparr>"

definition one_way_governor :: governor where
  "one_way_governor = example_governor
     \<lparr>transitions := [(''Off'', [(''On'', [Single ''valve'', Parallel [''motor'']])])],
      config := one_way_config\<rparr>"

text \<open>An engine in the Fault status, with a valve disconnected and two motors not homed.\<close>

definition faulty_governor :: governor where
  "faulty_governor = example_governor
     \<lparr>status := Fault, disconnected_devices := [''valve''],
      not_homed_devices := [''motor'', ''slit'']\<rparr>"

text \<open>
  A configuration the validator accepts, in which the sequence from \<open>Off\<close> to \<open>On\<close>
  leaves the motor out although \<open>On\<close> has a target for it, and the initial state
  \<open>Off\<close> has a target of its own; and its engine.
\<close>

definition partial_config :: raw_config where
  "partial_config = example_config
     \<lparr>rc_states := Some [(''Off'', \<lparr>sc_name = None, sc_targets = Some [(''valve'',
                            \<lparr>tc_target = Some (Str ''Closed''), tc_limits = Some [0, 1],
                             tc_updateAfter = None\<rparr>)]\<rparr>),
                        (''On'', on_state)],
      rc_transitions := Some [(''Off'', [(''On'', [Single ''valve''])]),
                              (''On'', [(''Off'', [Single ''valve''])])]\<rparr>"

definition partial_governor :: governor where
  "partial_governor = example_governor
     \<lparr>transitions := [(''Off'', [(''On'', [Single ''valve''])]),
                      (''On'', [(''Off'', [Single ''valve''])])],
      config := partial_config\<rparr>"

text \<open>That engine after \<^verbatim>\<open>do_transition('On')\<close>, and after \<^verbatim>\<open>do_transition('Off')\<close> then.\<close>

definition partial_on :: governor where
  "partial_on = snd (do_transition ''On'' partial_governor)"

definition partial_off :: governor where
  "partial_off = snd (do_transition ''Off'' partial_on)"

text \<open>
  The example's engine in the middle of its transition to \<open>On\<close>, after the step of the
  valve, with the abort flag set; and the targets of \<open>On\<close>.
\<close>

definition aborted_governor :: governor where
  "aborted_governor = example_governor
     \<lparr>status := Busy, next_state := ''On'', abort_transition := True,
      trace := [Move ''valve'' (''On'', ''valve''), Wait ''valve'']\<rparr>"

definition on_targets :: "(string \<times> target) list" where
  "on_targets = [(''valve'', (''On'', ''valve'')), (''motor'', (''On'', ''motor''))]"

text \<open>
  The example's engine with the motor reported homed before the sequence starts, and an
  abort command handled by the supervisor between the step of the valve and the step of
  the motor.
\<close>

definition abort_scenario_governor :: governor where
  "abort_scenario_governor = example_governor
     \<lparr>pending := [[StatusChanged ''motor'' 16384], [], [], [],
                   [DeviceEvent ABORT_EVENT None, WorkerStep]]\<rparr>"

text \<open>
  The engine of \<open>partial_config\<close> inside \<^verbatim>\<open>do_transition\<close>, with other threads at
  work: before the sequence starts the valve is closed, the motor reports that it is homed
  and the supervisor scans the devices; it scans them again before the valve is moved;
  while the engine waits the valve opens and its callback runs; and the supervisor scans
  once more after the step.
\<close>

definition moving_governor :: governor where
  "moving_governor = partial_governor
     \<lparr>status := Busy,
      pending :=
        [[Hardware ''valve'' \<lparr>hw_val = Some 0, hw_rbv = None, hw_connected = True,
                              hw_wait = DoneLater\<rparr>,
          StatusChanged ''motor'' 16384, WorkerStep],
         [WorkerStep],
         [],
         [Hardware ''valve'' \<lparr>hw_val = Some 1, hw_rbv = None, hw_connected = True,
                              hw_wait = DoneLater\<rparr>,
          ValueChanged ''valve'' (Some 1)],
         [WorkerStep]]\<rparr>"



section \<open>Properties of the validator\<close>

lemmas check_defs = checks_def check_root_mandatory_def check_init_state_def check_devices_def
     check_states_def check_limits_def check_transitions_def root_has_def passed_def failed_def raised_def
     chk_and_def has_key_def device_has_def check_type_def device_types_registry_def
     target_has_def sequence_devices_def

lemmas example_defs = example_config_def valve_cfg_def motor_cfg_def off_state_def on_state_def

lemma run_checks_first_failure:
  "(\<forall>p\<in>set pre. fst (p c) = Inr True) \<Longrightarrow> fst (check c) = Inr False \<Longrightarrow>
   run_checks (pre @ check # post) c = (Inr False, concat (map (\<lambda>p. snd (p c)) pre) @ snd (check c))"
proof (induction pre)
  case Nil
  then show ?case by (cases "check c") auto
next
  case (Cons p pre)
  then show ?case by (cases "p c") auto
qed

lemma run_checks_True:
  "(fst (run_checks cs c) = Inr True) = (\<forall>p\<in>set cs. fst (p c) = Inr True)"
proof (induction cs)
  case Nil
  show ?case by simp
next
  case (Cons p cs)
  then show ?case
    by (cases "p c"; cases "run_checks cs c") (auto split: sum.splits bool.splits)
qed

lemma run_checks_raise:
  "(\<forall>p\<in>set pre. fst (p c) = Inr True) \<Longrightarrow> fst (check c) = Inl e \<Longrightarrow>
   fst (run_checks (pre @ check # post) c) = Inl e"
proof (induction pre)
  case Nil
  then show ?case by (cases "check c") auto
next
  case (Cons p pre)
  then show ?case by (cases "p c"; cases "run_checks (pre @ check # post) c") auto
qed

text \<open>
  Claim C2, as the code has it. \<^verbatim>\<open>check_config\<close> runs its steps in order and stops at the
  first one that fails: the result is False, the errors logged are those of the steps up to
  and including that one, and no later step runs. The result is True exactly when all six
  steps return True.
\<close>

theorem check_config_first_failure:
  "(checks = pre @ check # post \<and> (\<forall>p\<in>set pre. fst (p c) = Inr True) \<and> fst (check c) = Inr False
      \<longrightarrow> check_config c = (Inr False, concat (map (\<lambda>p. snd (p c)) pre) @ snd (check c)))
   \<and> ((fst (check_config c) = Inr True) = (\<forall>p\<in>set checks. fst (p c) = Inr True))"
  using run_checks_first_failure [of pre c check post] run_checks_True [of checks c]
  by (auto simp: check_config_def)

lemma two_errors_root: "check_root_mandatory two_errors_config = (Inr True, [])"
  by (simp add: two_errors_config_def check_defs example_defs)
lemma two_errors_init_state: "check_init_state two_errors_config = (Inr False, [InvalidInitState ''Nowhere''])"
  by (simp add: two_errors_config_def check_defs example_defs)
lemma two_errors_limits: "check_limits two_errors_config = (Inr False, [LimitsInverted ''On'' ''valve'' (Str ''Open'') 1 0])"
  by (simp add: two_errors_config_def check_defs example_defs)

text \<open>
  The theorem at a configuration whose second step fails (the initial state is not
  declared) after a first step that passes.
\<close>

theorem check_config_first_failure_witness:
  "check_config two_errors_config = (Inr False, [InvalidInitState ''Nowhere''])"
  using check_config_first_failure [of "[check_root_mandatory]" check_init_state
          "[check_devices, check_states, check_limits, check_transitions]" two_errors_config]
  by (simp add: checks_def two_errors_root two_errors_init_state)

text \<open>
  Claim C2 as stated fails: this configuration also has a lower limit above the upper one,
  which \<^verbatim>\<open>_check_limits\<close> reports when it is run, and \<^verbatim>\<open>check_config\<close> reports the
  undeclared initial state only.
\<close>

theorem check_config_hides_later_errors:
  "check_config two_errors_config = (Inr False, [InvalidInitState ''Nowhere''])
   \<and> check_limits two_errors_config = (Inr False, [LimitsInverted ''On'' ''valve'' (Str ''Open'') 1 0])"
  by (simp add: check_config_def checks_def two_errors_root two_errors_init_state two_errors_limits)


lemma chk_and_raise_left: "fst a = Inl e \<Longrightarrow> fst (chk_and a b) = Inl e"
  by (cases a) (auto simp: chk_and_def)

lemma chk_and_raise_right: "fst a = Inr x \<Longrightarrow> fst b = Inl e \<Longrightarrow> fst (chk_and a b) = Inl e"
  by (cases a; cases b) (auto simp: chk_and_def)

lemma chk_and_raise_cases: "fst (chk_and a b) = Inl e \<Longrightarrow> fst a = Inl e \<or> fst b = Inl e"
  by (cases a; cases b) (auto simp: chk_and_def split: sum.splits)

lemma chk_and_total: "(\<exists>e. fst a = Inl e) \<or> (\<exists>x. fst a = Inr x)"
  by (cases "fst a") auto

lemma for_each_raise_only: "fst (for_each f xs) = Inl e \<Longrightarrow> \<exists>x\<in>set xs. fst (f x) = Inl e"
proof (induction xs)
  case Nil
  then show ?case by (simp add: passed_def)
next
  case (Cons x xs)
  then show ?case using chk_and_raise_cases [of "f x" "for_each f xs" e] by auto
qed

lemma for_each_raise_some:
  assumes "x \<in> set xs" and "fst (f x) = Inl e0"
    and "\<And>y e. y \<in> set xs \<Longrightarrow> fst (f y) = Inl e \<Longrightarrow> P e"
  shows "\<exists>e. fst (for_each f xs) = Inl e \<and> P e"
proof -
  have "\<exists>e. fst (for_each f xs) = Inl e" using assms(1,2)
  proof (induction xs)
    case Nil
    then show ?case by simp
  next
    case (Cons y ys)
    show ?case
    proof (cases "fst (f y)")
      case (Inl e)
      then show ?thesis by (auto simp: chk_and_raise_left)
    next
      case (Inr b)
      with Cons have "\<exists>e. fst (for_each f ys) = Inl e" by auto
      with Inr show ?thesis by (auto simp: chk_and_raise_right)
    qed
  qed
  then obtain e where e: "fst (for_each f xs) = Inl e" by blast
  then obtain y where "y \<in> set xs" "fst (f y) = Inl e" using for_each_raise_only by blast
  with assms(3) e show ?thesis by blast
qed

lemma check_destination_raises_KeyError:
  "fst (check_destination c origin ds) = Inl e \<Longrightarrow> \<exists>k. e = KeyError k"
  apply (cases ds)
  apply (auto simp: passed_def failed_def raised_def split: option.splits dest!: chk_and_raise_cases for_each_raise_only split: if_splits)
  done

lemma check_destination_undeclared:
  assumes "rc_states c = Some states" and "\<not> has_key states destination"
  shows "\<exists>e. fst (check_destination c origin (destination, sq)) = Inl e"
proof -
  let ?devs = "for_each (\<lambda>device_name. case rc_devices c of
                            None \<Rightarrow> raised (KeyError ''devices'')
                          | Some ds \<Rightarrow>
                              if \<not> has_key ds device_name
                              then failed (InvalidSequenceDevice origin destination device_name)
                              else passed) (sequence_devices sq)"
  from assms have m: "map_of states destination = None" by (simp add: has_key_def)
  show ?thesis
  proof (cases "fst ?devs")
    case (Inl e)
    with assms m show ?thesis
      by (simp add: failed_def passed_def raised_def chk_and_raise_left chk_and_raise_right)
  next
    case (Inr b)
    with assms m show ?thesis
      by (simp add: failed_def passed_def raised_def chk_and_raise_left chk_and_raise_right)
  qed
qed

lemma check_origin_undeclared_destination:
  assumes "rc_states c = Some states" and "(destination, sq) \<in> set transition"
    and "\<not> has_key states destination"
  shows "\<exists>k. fst (check_origin c (origin, transition)) = Inl (KeyError k)"
proof -
  obtain e0 where "fst (check_destination c origin (destination, sq)) = Inl e0"
    using check_destination_undeclared [OF assms(1,3)] by blast
  then have "\<exists>e. fst (for_each (check_destination c origin) transition) = Inl e \<and> (\<exists>k. e = KeyError k)"
    using assms(2) check_destination_raises_KeyError
    by (intro for_each_raise_some [where x = "(destination, sq)"]) auto
  then show ?thesis using assms(1)
    by (auto simp: passed_def failed_def chk_and_raise_right)
qed

lemma check_origin_raises_KeyError:
  "fst (check_origin c ot) = Inl e \<Longrightarrow> \<exists>k. e = KeyError k"
  apply (cases ot)
  apply (auto simp: passed_def failed_def raised_def split: option.splits if_splits
       dest!: chk_and_raise_cases for_each_raise_only check_destination_raises_KeyError)
  done

lemma check_transitions_undeclared_destination:
  assumes "rc_transitions c = Some tr" and "rc_states c = Some states"
    and "(origin, transition) \<in> set tr" and "(destination, sq) \<in> set transition"
    and "\<not> has_key states destination"
  shows "\<exists>k. fst (check_transitions c) = Inl (KeyError k)"
proof -
  obtain k0 where "fst (check_origin c (origin, transition)) = Inl (KeyError k0)"
    using check_origin_undeclared_destination [OF assms(2,4,5)] by blast
  then have "\<exists>e. fst (for_each (check_origin c) tr) = Inl e \<and> (\<exists>k. e = KeyError k)"
    using assms(3) check_origin_raises_KeyError
    by (intro for_each_raise_some [where x = "(origin, transition)"]) auto
  then show ?thesis using assms(1) by (auto simp: check_transitions_def)
qed

text \<open>
  Claim C9. \<^verbatim>\<open>check_config\<close> raises instead of returning False: with no \<^verbatim>\<open>transitions\<close>
  key (the first five steps do not ask for it) the last step raises
  \<^verbatim>\<open>KeyError('transitions')\<close>, and with a transition to an undeclared state it raises a
  KeyError when it looks the destination up.
\<close>

theorem check_config_raises:
  "((\<forall>p\<in>set (butlast checks). fst (p c) = Inr True) \<and> rc_transitions c = None
      \<longrightarrow> fst (check_config c) = Inl (KeyError ''transitions''))
   \<and> ((\<forall>p\<in>set (butlast checks). fst (p c) = Inr True) \<and> rc_transitions c = Some tr
        \<and> rc_states c = Some states \<and> (origin, transition) \<in> set tr
        \<and> (destination, sq) \<in> set transition \<and> \<not> has_key states destination
      \<longrightarrow> (\<exists>k. fst (check_config c) = Inl (KeyError k)))"
proof -
  have split: "checks = butlast checks @ check_transitions # []"
    by (simp add: checks_def)
  have raise: "\<And>e. \<forall>p\<in>set (butlast checks). fst (p c) = Inr True \<Longrightarrow> fst (check_transitions c) = Inl e
      \<Longrightarrow> fst (check_config c) = Inl e"
    unfolding check_config_def using run_checks_raise [of "butlast checks" c check_transitions _ "[]"] split
    by simp
  show ?thesis
  proof (intro conjI impI)
    assume a: "(\<forall>p\<in>set (butlast checks). fst (p c) = Inr True) \<and> rc_transitions c = None"
    then have "fst (check_transitions c) = Inl (KeyError ''transitions'')"
      by (simp add: check_transitions_def raised_def)
    with a raise show "fst (check_config c) = Inl (KeyError ''transitions'')" by blast
  next
    assume a: "(\<forall>p\<in>set (butlast checks). fst (p c) = Inr True) \<and> rc_transitions c = Some tr
        \<and> rc_states c = Some states \<and> (origin, transition) \<in> set tr
        \<and> (destination, sq) \<in> set transition \<and> \<not> has_key states destination"
    then obtain k where "fst (check_transitions c) = Inl (KeyError k)"
      using check_transitions_undeclared_destination [of c tr states origin transition destination sq]
      by blast
    with a raise show "\<exists>k. fst (check_config c) = Inl (KeyError k)" by blast
  qed
qed

lemma first_five_no_transitions:
  "\<forall>p\<in>set (butlast checks). fst (p no_transitions_config) = Inr True"
  by (simp add: no_transitions_config_def check_defs example_defs)

lemma first_five_undeclared_destination:
  "\<forall>p\<in>set (butlast checks). fst (p undeclared_destination_config) = Inr True"
  by (simp add: undeclared_destination_config_def check_defs example_defs)

text \<open>
  Both cases of the theorem at concrete configurations that pass the first five steps.
\<close>

theorem check_config_raises_witness:
  "fst (check_config no_transitions_config) = Inl (KeyError ''transitions'')
   \<and> (\<exists>k. fst (check_config undeclared_destination_config) = Inl (KeyError k))"
proof -
  have "rc_transitions no_transitions_config = None"
    by (simp add: no_transitions_config_def)
  then have 1: "fst (check_config no_transitions_config) = Inl (KeyError ''transitions'')"
    using check_config_raises [of no_transitions_config] first_five_no_transitions by blast
  have "rc_transitions undeclared_destination_config = Some [(''Off'', [(''Up'', [])])]"
    "rc_states undeclared_destination_config = Some [(''Off'', off_state), (''On'', on_state)]"
    "\<not> has_key [(''Off'', off_state), (''On'', on_state)] ''Up''"
    by (simp_all add: undeclared_destination_config_def example_config_def has_key_def)
  then have 2: "\<exists>k. fst (check_config undeclared_destination_config) = Inl (KeyError k)"
    using check_config_raises [of undeclared_destination_config "[(''Off'', [(''Up'', [])])]"
        "[(''Off'', off_state), (''On'', on_state)]" "''Off''" "[(''Up'', [])]" "''Up''" "[]"]
      first_five_undeclared_destination by simp
  from 1 2 show ?thesis by simp
qed



section \<open>Properties of the engine\<close>

lemmas gov_example_defs = example_governor_def example_devices_def example_plant_def

lemma new_governor_example: "new_governor example_plant example_config = Inr example_governor"
  by (simp add: new_governor_def parse_config_def example_defs gov_example_defs make_transitions_def)

lemma new_governor_one_way: "new_governor example_plant one_way_config = Inr one_way_governor"
  by (simp add: new_governor_def parse_config_def one_way_config_def one_way_governor_def
      example_defs gov_example_defs make_transitions_def)

subsection \<open>status_message\<close>

text \<open>
  Claim C8. In the Fault status the message is the non-empty lists among the disconnected,
  the alarmed and the not homed devices, in that order, each written as its tag and the
  names joined by commas in parentheses, joined by spaces; otherwise it is
  \<^verbatim>\<open>state {current}\<close> when the next state is the current one, and
  \<^verbatim>\<open>transition {current} to {next}\<close> when it is not.
\<close>

theorem status_message_cases:
  "status_message g =
     (if status g = Fault
      then join '' ''
             (map (\<lambda>(tag, ds). tag @ ''('' @ join '','' ds @ '')'')
                (filter (\<lambda>(tag, ds). ds \<noteq> [])
                   [(''disconn'', disconnected_devices g), (''alarm'', alarmed_devices g),
                    (''!homed'', not_homed_devices g)]))
      else if next_state g = current_state g then ''state '' @ current_state g
      else ''transition '' @ current_state g @ '' to '' @ next_state g)"
  by (simp add: status_message_def fault_def Let_def)

text \<open>
  The three cases of the message on concrete engines.
\<close>

theorem status_message_cases_witness:
  "status_message faulty_governor = ''disconn(valve) !homed(motor,slit)''
   \<and> status_message example_governor = ''state Off''
   \<and> status_message (example_governor\<lparr>next_state := ''On''\<rparr>) = ''transition Off to On''"
  using status_message_cases [of faulty_governor] status_message_cases [of example_governor]
    status_message_cases [of "example_governor\<lparr>next_state := ''On''\<rparr>"]
  by (simp add: faulty_governor_def example_governor_def)

subsection \<open>set_state_device_limit\<close>

lemma get_limits_set_limits:
  assumes "state_config_of g state = Some st" and "map_of (state_targets st) dev = Some tc"
    and "config g' = set_limits (state, dev) l (config g)"
  shows "get_limits g' (state, dev) = Inr l"
  using assms
  by (auto simp: get_limits_def target_config_of_def state_config_of_def set_limits_def
      state_targets_def map_of_map_entry split: option.splits)

text \<open>
  Claim C7. For a state and a device whose target has its two limits: when the pair with
  the edited bound has its low above its high, the call returns False and leaves the engine
  as it was (the limits in memory, and no commit); otherwise it returns True, the limits
  read afterwards are the new pair, whose edited bound is the value, and the configuration
  with them is written to the file.
\<close>

theorem set_state_device_limit_checks_pair:
  assumes "state_config_of g state = Some st"
    and "map_of (state_targets st) dev = Some tc"
    and "tc_limits tc = Some (lo # hi # rest)"
  shows "(let new = (if limit = LIMIT_LOW then (v, hi) else (lo, v)) in
          if fst new > snd new
          then set_state_device_limit state dev limit v g = (Returns False, g)
          else (\<exists>g'. set_state_device_limit state dev limit v g = (Returns True, g')
                  \<and> get_limits g' (state, dev) = Inr [fst new, snd new]
                  \<and> committed g' = committed g @ [config g']))"
  using assms
  by (simp add: set_state_device_limit_def commit_def Let_def
      get_limits_set_limits [OF assms(1,2)])

lemma example_on_state: "state_config_of example_governor ''On'' = Some on_state"
  by (simp add: state_config_of_def example_governor_def example_config_def)

text \<open>
  On the motor's target in \<open>On\<close>, with limits \<open>[-1, 1]\<close>: a low limit of 2 is
  refused, a high limit of 3 is installed and committed.
\<close>

theorem set_state_device_limit_checks_pair_witness:
  "set_state_device_limit ''On'' ''motor'' LIMIT_LOW 2 example_governor
     = (Returns False, example_governor)
   \<and> (\<exists>g'. set_state_device_limit ''On'' ''motor'' LIMIT_HIGH 3 example_governor
            = (Returns True, g')
          \<and> get_limits g' (''On'', ''motor'') = Inr [- 1, 3]
          \<and> committed g' = committed example_governor @ [config g'])"
proof -
  have t: "map_of (state_targets on_state) ''motor''
             = Some \<lparr>tc_target = Some (Str ''In''), tc_limits = Some [- 1, 1],
                      tc_updateAfter = Some True\<rparr>"
    by (simp add: state_targets_def on_state_def)
  show ?thesis
    using set_state_device_limit_checks_pair [OF example_on_state t, of "- 1" 1 "[]" LIMIT_LOW 2]
      set_state_device_limit_checks_pair [OF example_on_state t, of "- 1" 1 "[]" LIMIT_HIGH 3]
    by (simp add: LIMIT_LOW_def LIMIT_HIGH_def)
qed

subsection \<open>set_device_position\<close>

text \<open>
  Claim C5, at the input where the code departs from it: with no value
  \<^verbatim>\<open>set_device_position\<close> writes nothing and commits nothing, but what it returns is True.
\<close>

theorem set_device_position_none:
  "set_device_position dev position None g = (Returns True, g)"
  by (simp add: set_device_position_def)

text \<open>
  Claim C10. For a valve, \<^verbatim>\<open>set_device_position\<close> with a value returns True and commits,
  the configuration it commits is the one it found, and the positions of the valve are
  \<^verbatim>\<open>{"Open": 1, "Closed": 0}\<close> before and after, whatever the configuration declares.
\<close>

theorem set_device_position_valve:
  assumes "map_of (devices g) dev = Some d" and "dev_class d = ValveC"
  shows "set_device_position dev position (Some v) g
           = (Returns True, g\<lparr>committed := committed g @ [config g]\<rparr>)
         \<and> device_positions (g\<lparr>committed := committed g @ [config g]\<rparr>) dev
             = [(Str ''Open'', Num 1), (Str ''Closed'', Num 0)]
         \<and> device_positions g dev = [(Str ''Open'', Num 1), (Str ''Closed'', Num 0)]"
  using assms
  by (simp add: set_device_position_def commit_def device_positions_def valve_positions_def)

text \<open>
  Writing 5 to the position \<open>Open\<close> of the example's valve.
\<close>

theorem set_device_position_valve_witness:
  "set_device_position ''valve'' (Str ''Open'') (Some (Num 5)) example_governor
     = (Returns True, example_governor\<lparr>committed := [example_config]\<rparr>)
   \<and> device_positions (example_governor\<lparr>committed := [example_config]\<rparr>) ''valve''
       = [(Str ''Open'', Num 1), (Str ''Closed'', Num 0)]"
  using set_device_position_valve [of example_governor "''valve''"
      "\<lparr>dev_class = ValveC, dev_target = None, dev_homed = False,
        dev_hw = example_plant ''valve''\<rparr>" "Str ''Open''" "Num 5"]
  by (simp add: example_governor_def example_devices_def)

subsection \<open>The implicit transition to the initial state\<close>

lemma map_of_foldl_update:
  "distinct (map fst xs) \<Longrightarrow>
   map_of (foldl (\<lambda>m (k, v). AList.update k (f k v) m) acc xs) k
     = (case map_of xs k of Some v \<Rightarrow> Some (f k v) | None \<Rightarrow> map_of acc k)"
proof (induction xs arbitrary: acc)
  case Nil
  show ?case by simp
next
  case (Cons x xs)
  obtain a b where x: "x = (a, b)" by (cases x)
  from Cons.prems x have "map_of xs a = None"
    by (simp add: map_of_eq_None_iff)
  with Cons x show ?case
    by (auto simp: update_conv' split: option.splits)
qed

lemma foldl_update_keeps:
  "map_of acc k = Some v \<Longrightarrow> k \<notin> fst ` set xs \<Longrightarrow>
   map_of (foldl (\<lambda>m (d, sq). AList.update d sq m) acc xs) k = Some v"
  by (induction xs arbitrary: acc) (auto simp: update_conv')

lemma foldl_update_has:
  "map_of acc k \<noteq> None \<Longrightarrow>
   map_of (foldl (\<lambda>m (d, sq). AList.update d sq m) acc xs) k \<noteq> None"
  by (induction xs arbitrary: acc) (auto simp: update_conv')

lemma make_transitions_init:
  assumes "origin \<noteq> init"
  shows "has_key (make_transitions init origin transition) init"
    and "\<not> has_key transition init \<Longrightarrow> map_of (make_transitions init origin transition) init = Some []"
  using assms foldl_update_has [of "[(init, [])]" init transition]
    foldl_update_keeps [of "[(init, [])]" init "[]" transition]
  by (auto simp: make_transitions_def has_key_def map_of_eq_None_iff)

text \<open>
  Claim C3, as the code has it. For every origin of the configured transitions other than
  the initial state, the transitions of the engine from that origin have the initial state
  among their destinations, with the empty sequence unless the configuration declares a
  transition from that origin to the initial state itself; so \<^verbatim>\<open>reachable_states\<close> of the
  origin returns and holds the initial state.
\<close>

theorem implicit_transition_to_init:
  assumes "new_governor plant c = Inr g" and "rc_transitions c = Some tr"
    and "distinct (map fst tr)" and "map_of tr origin = Some transition"
    and "origin \<noteq> init_state g"
  shows "\<exists>ts rs. map_of (transitions g) origin = Some ts
           \<and> has_key ts (init_state g)
           \<and> (\<not> has_key transition (init_state g) \<longrightarrow> map_of ts (init_state g) = Some [])
           \<and> reachable_states g (Some origin) = Inr rs
           \<and> init_state g \<in> set rs"
proof -
  from assms(1,2) have tg: "transitions g
      = foldl (\<lambda>m (origin, transition).
                 AList.update origin (make_transitions (init_state g) origin transition) m) [] tr"
    by (auto simp: new_governor_def parse_config_def split: option.splits sum.splits)
  have ts: "map_of (transitions g) origin = Some (make_transitions (init_state g) origin transition)"
    unfolding tg using map_of_foldl_update [OF assms(3), of "make_transitions (init_state g)" "[]" origin] assms(4)
    by simp
  have "init_state g \<in> fst ` set (make_transitions (init_state g) origin transition)"
    using make_transitions_init(1) [OF assms(5), of transition]
    by (simp add: has_key_def map_of_eq_None_iff)
  with ts make_transitions_init [OF assms(5), of transition] show ?thesis
    by (simp add: reachable_states_def)
qed

text \<open>
  The origin \<open>On\<close> of the example, which declares no transition of its own.
\<close>

theorem implicit_transition_to_init_witness:
  "\<exists>ts rs. map_of (transitions example_governor) ''On'' = Some ts
      \<and> map_of ts ''Off'' = Some []
      \<and> reachable_states example_governor (Some ''On'') = Inr rs \<and> ''Off'' \<in> set rs"
  using implicit_transition_to_init [OF new_governor_example, of _ "''On''" "[]"]
  by (simp add: example_config_def example_governor_def has_key_def)

text \<open>
  A state that is not an origin of the configured transitions has no entry at all in the
  transitions of the engine, and \<^verbatim>\<open>reachable_states\<close> of it raises.
\<close>

lemma foldl_update_other:
  "k \<notin> fst ` set xs \<Longrightarrow>
   map_of (foldl (\<lambda>m (k', v). AList.update k' (f k' v) m) acc xs) k = map_of acc k"
  by (induction xs arbitrary: acc) (auto simp: update_conv')

lemma reachable_states_without_origin:
  assumes "new_governor plant c = Inr g" and "rc_transitions c = Some tr"
    and "origin \<notin> fst ` set tr"
  shows "reachable_states g (Some origin) = Inl (KeyError origin)"
proof -
  from assms(1,2) have "transitions g
      = foldl (\<lambda>m (origin, transition).
                 AList.update origin (make_transitions (init_state g) origin transition) m) [] tr"
    by (auto simp: new_governor_def parse_config_def split: option.splits sum.splits)
  with foldl_update_other [OF assms(3), of "make_transitions (init_state g)" "[]"]
  show ?thesis by (simp add: reachable_states_def)
qed

text \<open>
  Claim C3 as stated fails on two configurations the validator accepts. In the first,
  \<open>On\<close> is a declared state other than the initial one and not an origin of the
  configured transitions: the engine holds no transition from it, and \<^verbatim>\<open>reachable_states\<close>
  of it raises KeyError. In the second, the configuration declares a transition from
  \<open>On\<close> to the initial state \<open>Off\<close> with a sequence of its own, and that sequence, not
  the empty one, is what the engine holds.
\<close>

theorem no_implicit_transition_without_origin:
  "check_config one_way_config = (Inr True, [])
   \<and> new_governor example_plant one_way_config = Inr one_way_governor
   \<and> state_config_of one_way_governor ''On'' = Some on_state
   \<and> init_state one_way_governor = ''Off''
   \<and> map_of (transitions one_way_governor) ''On'' = None
   \<and> reachable_states one_way_governor (Some ''On'') = Inl (KeyError ''On'')
   \<and> check_config partial_config = (Inr True, [])
   \<and> new_governor example_plant partial_config = Inr partial_governor
   \<and> init_state partial_governor = ''Off''
   \<and> map_of (transitions partial_governor) ''On'' = Some [(''Off'', [Single ''valve''])]"
proof -
  have "check_config one_way_config = (Inr True, [])"
    by (simp add: check_config_def check_defs example_defs one_way_config_def)
  moreover have "check_config partial_config = (Inr True, [])"
    by (simp add: check_config_def check_defs example_defs partial_config_def)
  moreover have "new_governor example_plant partial_config = Inr partial_governor"
    by (simp add: new_governor_def parse_config_def partial_config_def partial_governor_def
        example_defs gov_example_defs make_transitions_def)
  moreover have "init_state partial_governor = ''Off''"
    "map_of (transitions partial_governor) ''On'' = Some [(''Off'', [Single ''valve''])]"
    by (simp_all add: partial_governor_def example_governor_def)
  moreover have "state_config_of one_way_governor ''On'' = Some on_state"
    "init_state one_way_governor = ''Off''"
    "map_of (transitions one_way_governor) ''On'' = None"
    "reachable_states one_way_governor (Some ''On'') = Inl (KeyError ''On'')"
    by (simp_all add: one_way_governor_def one_way_config_def example_governor_def
        example_config_def state_config_of_def reachable_states_def)
  ultimately show ?thesis by (simp add: new_governor_one_way)
qed


lemmas run_defs = do_transition_def do_transition_inner_def enabled_def reachable_states_def
  state_config_of_def Let_def state_targets_def yield_def fault_def device_move_def store_target_def
  get_target_def target_config_of_def device_wait_def device_config_of_def
  device_set_target_def value_changed_def limits_violated_def target_pos_def device_target_def
  device_positions_def valve_positions_def position_value_def get_limits_def set_state_def
  clear_unmoved_def clear_targets_def get_update_after_def tgts_index_def device_event_def
  device_val_def set_device_position_def commit_def write_position_def


subsection \<open>What the other threads cannot do\<close>

lemma stop_all:
  "foldl (\<lambda>h n. device_stop n h) g ns = g\<lparr>trace := trace g @ map Stop ns\<rparr>"
  by (induction ns arbitrary: g) (simp_all add: device_stop_def)

lemma is_move_Stop [simp]: "filter is_move (map (Stop \<circ> f) xs) = []"
  by (induction xs) (simp_all add: is_move_def)

lemma is_move_Stop_names [simp]: "filter is_move (map Stop ns) = []"
  by (induction ns) (simp_all add: is_move_def)

lemma check_fault_state_keeps:
  "abort_transition (check_fault_state g) = abort_transition g"
  "trace (check_fault_state g) = trace g"
  by (simp_all add: check_fault_state_def Let_def set_state_def clear_targets_def)

lemma worker_step_keeps:
  "abort_transition g \<Longrightarrow> abort_transition (worker_step g)"
  "filter is_move (trace (worker_step g)) = filter is_move (trace g)"
  by (simp_all add: worker_step_def check_fault_state_keeps stop_all Let_def set_state_def
      clear_targets_def split: list.splits prod.splits)

lemma value_changed_keeps:
  "abort_transition (snd (value_changed name v g)) = abort_transition g"
  "trace (snd (value_changed name v g)) = trace g"
  by (simp_all add: value_changed_def device_event_def
      split: option.splits dev_class.splits sum.splits bool.splits)

lemma env_step_keeps:
  "abort_transition g \<Longrightarrow> abort_transition (env_step g a)"
  "filter is_move (trace (env_step g a)) = filter is_move (trace g)"
proof -
  show "abort_transition g \<Longrightarrow> abort_transition (env_step g a)"
  proof (cases a)
    case (ValueChanged name v)
    then show "abort_transition g \<Longrightarrow> abort_transition (env_step g a)"
      using value_changed_keeps(1) [of name v g]
      by (cases "value_changed name v g") (auto split: outcome.splits)
  qed (simp_all add: device_event_def update_device_def worker_step_keeps split: option.splits)
  show "filter is_move (trace (env_step g a)) = filter is_move (trace g)"
  proof (cases a)
    case (ValueChanged name v)
    then show ?thesis
      using value_changed_keeps(2) [of name v g]
      by (cases "value_changed name v g") (auto split: outcome.splits)
  qed (simp_all add: device_event_def update_device_def worker_step_keeps split: option.splits)
qed

lemma batch_keeps:
  "abort_transition g \<Longrightarrow> abort_transition (foldl env_step g batch)"
  "filter is_move (trace (foldl env_step g batch)) = filter is_move (trace g)"
  by (induction batch arbitrary: g) (simp_all add: env_step_keeps)

lemma yield_keeps:
  "abort_transition g \<Longrightarrow> abort_transition (yield g)"
  "filter is_move (trace (yield g)) = filter is_move (trace g)"
  by (simp_all add: yield_def batch_keeps split: list.splits)

lemma move_phase_aborted:
  "abort_transition g \<Longrightarrow>
   \<exists>g'. move_phase ds g = (Returns (), g') \<and> abort_transition g'
        \<and> filter is_move (trace g') = filter is_move (trace g)"
proof (induction ds arbitrary: g)
  case Nil
  then show ?case by simp
next
  case (Cons p ds)
  obtain name t where p: "p = (name, t)" by (cases p)
  from Cons.prems have "abort_transition (yield g)" by (rule yield_keeps)
  from Cons.IH [OF this] p this show ?case
    by (auto simp: Let_def yield_keeps)
qed

lemma wait_phase_aborted:
  "abort_transition g \<Longrightarrow>
   \<exists>g'. wait_phase ds g = (Returns (), g') \<and> abort_transition g'
        \<and> filter is_move (trace g') = filter is_move (trace g)"
proof (induction ds arbitrary: g)
  case Nil
  then show ?case by simp
next
  case (Cons p ds)
  obtain name t where p: "p = (name, t)" by (cases p)
  from Cons.prems have 1: "abort_transition (yield g)" by (rule yield_keeps)
  then have 2: "abort_transition (yield (yield g))" by (rule yield_keeps)
  from Cons.IH [OF 2] p 1 2 show ?case
    by (auto simp: Let_def yield_keeps)
qed

lemma move_loop_aborted:
  "abort_transition g \<Longrightarrow>
   filter is_move (trace (snd (move_loop targets sq moved g))) = filter is_move (trace g)
   \<and> fst (move_loop targets sq moved g) \<noteq> Hangs"
proof (induction sq arbitrary: g moved)
  case Nil
  then show ?case by simp
next
  case (Cons item sq)
  show ?case
  proof (cases "fault g")
    case True
    then show ?thesis by simp
  next
    case False
    show ?thesis
    proof (cases "step_devices g targets (item_devices item)")
      case (Inl e)
      with False show ?thesis by simp
    next
      case (Inr ds)
      obtain g1 where g1: "move_phase ds g = (Returns (), g1)" "abort_transition g1"
        "filter is_move (trace g1) = filter is_move (trace g)"
        using move_phase_aborted [OF Cons.prems] by blast
      obtain g2 where g2: "wait_phase ds g1 = (Returns (), g2)" "abort_transition g2"
        "filter is_move (trace g2) = filter is_move (trace g1)"
        using wait_phase_aborted [OF g1(2)] by blast
      from g2(2) have "abort_transition (yield g2)" by (rule yield_keeps)
      from Cons.IH [OF this] False Inr g1 g2 show ?thesis
        by (simp add: yield_keeps)
    qed
  qed
qed

text \<open>
  Claim C4. At the head of the loop over the sequence, with the steps \<open>sq\<close> still to
  run: when the abort flag is set or the status is Fault, the loop ends (it does not hang)
  and no \<^verbatim>\<open>move\<close> is issued in the rest of it, whatever the other threads do meanwhile.
  On a fault the loop is left at once, with nothing done.
\<close>

theorem abort_or_fault_issues_no_move:
  assumes "abort_transition g \<or> status g = Fault"
  shows "filter is_move (trace (snd (move_loop targets sq moved g))) = filter is_move (trace g)
         \<and> fst (move_loop targets sq moved g) \<noteq> Hangs
         \<and> (status g = Fault \<and> sq \<noteq> [] \<longrightarrow> move_loop targets sq moved g = (Returns None, g))"
proof (cases "status g = Fault")
  case True
  then show ?thesis by (cases sq) (simp_all add: fault_def)
next
  case False
  with assms move_loop_aborted [of g targets sq moved] show ?thesis by simp
qed


text \<open>
  The abort flag set after the step of the valve: the step of the motor issues no move.
\<close>

theorem abort_or_fault_issues_no_move_witness:
  "filter is_move
     (trace (snd (move_loop on_targets [Parallel [''motor'']] [''valve''] aborted_governor)))
     = [Move ''valve'' (''On'', ''valve'')]
   \<and> fst (move_loop on_targets [Parallel [''motor'']] [''valve''] aborted_governor) \<noteq> Hangs"
  using abort_or_fault_issues_no_move
    [of aborted_governor on_targets "[Parallel [''motor'']]" "[''valve'']"]
  by (simp add: aborted_governor_def example_governor_def is_move_def)


text \<open>
  The whole of such a run: the valve is moved and waited for, the abort stops both devices,
  the motor is never moved, the engine is back in \<open>Off\<close> and idle, and nothing is
  committed.
\<close>

lemma abort_between_steps:
  "fst (do_transition ''On'' abort_scenario_governor) = Returns ()"
  "trace (snd (do_transition ''On'' abort_scenario_governor))
     = [Move ''valve'' (''On'', ''valve''), Wait ''valve'', Stop ''valve'', Stop ''motor'']"
  "current_state (snd (do_transition ''On'' abort_scenario_governor)) = ''Off''"
  "status (snd (do_transition ''On'' abort_scenario_governor)) = Idle"
  "committed (snd (do_transition ''On'' abort_scenario_governor)) = []"
  by (simp_all add: abort_scenario_governor_def run_defs gov_example_defs example_defs
      worker_step_def check_fault_state_def device_connected_def device_alarmed_def
      device_homed_def update_device_def stop_all)



subsection \<open>A transition that is neither aborted nor faulted\<close>

lemma same_control_refl [simp]: "same_control g g"
  by (simp add: same_control_def)

lemma same_control_trans: "same_control g h \<Longrightarrow> same_control h k \<Longrightarrow> same_control g k"
  by (simp add: same_control_def)

lemma same_control_undisturbed: "same_control g h \<Longrightarrow> undisturbed h = undisturbed g"
  by (simp add: same_control_def undisturbed_def)

lemma device_target_store:
  "device_target (store_target name t g) d
     = (if d = name \<and> map_of (devices g) name \<noteq> None then t else device_target g d)"
  by (auto simp: device_target_def store_target_def map_of_map_entry split: option.splits)

lemma device_target_update_device:
  "(\<And>dev. dev_target (f dev) = dev_target dev) \<Longrightarrow>
   device_target (update_device name f g) d = device_target g d"
  by (auto simp: device_target_def update_device_def map_of_map_entry split: option.splits)

lemma device_move_effect:
  assumes "device_move name t g = (Returns b, g')"
  shows "same_control g g'"
    and "device_target g' d = (if d = name then None else device_target g d)"
  using assms
  by (auto simp: device_move_def Let_def same_control_def store_target_def device_target_def
      map_of_map_entry split: option.splits sum.splits dev_class.splits if_splits)

lemma device_wait_effect:
  assumes "device_wait name g = (Returns b, g')"
  shows "same_control g g'" and "device_target g' d = device_target g d"
  using assms
  by (auto simp: device_wait_def Let_def same_control_def device_target_def device_event_def
      split: option.splits dev_class.splits wait_result.splits if_splits)

lemma value_changed_effect:
  assumes "value_changed name v g = (r, g')"
  shows "same_control g g'" and "devices g' = devices g"
  using assms
  by (auto simp: value_changed_def same_control_def device_event_def
      split: option.splits dev_class.splits sum.splits bool.splits)

lemma device_set_target_effect:
  assumes "device_set_target name (Some t) g = (Returns u, g')"
  shows "same_control g g'"
    and "device_target g' d = (if d = name then Some t else device_target g d)"
proof -
  from assms obtain dev where dev: "map_of (devices g) name = Some dev"
    by (auto simp: device_set_target_def split: option.splits)
  let ?h = "store_target name (Some t) g"
  have h: "same_control g ?h" by (simp add: same_control_def store_target_def)
  have "same_control ?h g' \<and> devices g' = devices ?h"
    using assms dev value_changed_effect [of name _ ?h _ g']
    by (auto simp: device_set_target_def split: dev_class.splits)
  then show "same_control g g'"
    and "device_target g' d = (if d = name then Some t else device_target g d)"
    using h dev device_target_store [of name "Some t" g d]
    by (auto simp: device_target_def intro: same_control_trans)
qed

text \<open>What the other threads have done when the transition is still undisturbed after.\<close>

lemma check_fault_state_undisturbed:
  assumes "undisturbed (check_fault_state g)"
  shows "same_control g (check_fault_state g)"
    and "devices (check_fault_state g) = devices g"
  using assms
  by (auto simp: check_fault_state_def Let_def undisturbed_def same_control_def enabled_def
      fault_def set_state_def clear_targets_def split: if_splits)

lemma worker_step_undisturbed:
  assumes "undisturbed (worker_step g)"
  shows "same_control g (worker_step g)" and "devices (worker_step g) = devices g"
proof -
  have "abort_transition (worker_step g)" if "queue g \<noteq> []"
    using that
    by (cases "queue g") (auto simp: worker_step_def Let_def check_fault_state_keeps stop_all
        set_state_def clear_targets_def split: prod.splits)
  with assms have "queue g = []" by (auto simp: undisturbed_def)
  then have "worker_step g = check_fault_state g" by (simp add: worker_step_def)
  with assms check_fault_state_undisturbed [of g]
  show "same_control g (worker_step g)" and "devices (worker_step g) = devices g" by simp_all
qed

lemma env_step_undisturbed:
  assumes "undisturbed (env_step g a)"
  shows "same_control g (env_step g a)"
    and "device_target (env_step g a) d = device_target g d"
proof -
  have "same_control g (env_step g a) \<and> device_target (env_step g a) d = device_target g d"
  proof (cases a)
    case (DeviceEvent ev x)
    then show ?thesis by (simp add: device_event_def same_control_def device_target_def)
  next
    case (ValueChanged name v)
    obtain r g1 where vc: "value_changed name v g = (r, g1)" by (cases "value_changed name v g")
    from value_changed_effect [OF vc] ValueChanged vc show ?thesis
      by (cases r) (auto simp: device_target_def)
  next
    case (ConnectionChanged name conn)
    then show ?thesis
      by (auto simp: device_event_def same_control_def device_target_def split: option.splits)
  next
    case (StatusChanged name v)
    then show ?thesis
      by (simp add: device_target_update_device) (simp add: update_device_def same_control_def)
  next
    case (Hardware name hw)
    then show ?thesis
      by (simp add: device_target_update_device) (simp add: update_device_def same_control_def)
  next
    case WorkerStep
    with assms worker_step_undisturbed [of g] show ?thesis
      by (simp add: device_target_def)
  qed
  then show "same_control g (env_step g a)"
    and "device_target (env_step g a) d = device_target g d" by simp_all
qed

lemma env_step_disturbed: "\<not> undisturbed g \<Longrightarrow> \<not> undisturbed (env_step g a)"
  using env_step_undisturbed(1) [of g a] same_control_undisturbed by blast

lemma batch_undisturbed:
  "undisturbed (foldl env_step g batch) \<Longrightarrow>
   same_control g (foldl env_step g batch)
   \<and> (\<forall>d. device_target (foldl env_step g batch) d = device_target g d)"
proof (induction batch arbitrary: g)
  case Nil
  then show ?case by simp
next
  case (Cons a batch)
  note ih = Cons.IH [OF Cons.prems [simplified]]
  then have "undisturbed (env_step g a)"
    using Cons.prems same_control_undisturbed by auto
  from env_step_undisturbed [OF this] ih show ?case
    by (auto intro: same_control_trans)
qed

lemma yield_undisturbed:
  assumes "undisturbed (yield g)"
  shows "same_control g (yield g)" and "device_target (yield g) d = device_target g d"
proof -
  have "same_control g (yield g) \<and> device_target (yield g) d = device_target g d"
  proof (cases "pending g")
    case Nil
    then show ?thesis by (simp add: yield_def)
  next
    case (Cons batch rest)
    let ?h = "g\<lparr>pending := rest\<rparr>"
    from Cons assms batch_undisturbed [of ?h batch] show ?thesis
      by (simp add: yield_def same_control_def device_target_def)
  qed
  then show "same_control g (yield g)" and "device_target (yield g) d = device_target g d"
    by simp_all
qed

lemma move_phase_undisturbed:
  assumes "move_phase ds g = (Returns u, g')" and "undisturbed g'"
  shows "same_control g g'
         \<and> (\<forall>d. device_target g' d = (if d \<in> fst ` set ds then None else device_target g d))"
  using assms
proof (induction ds arbitrary: g)
  case Nil
  then show ?case by simp
next
  case (Cons p ds)
  obtain name t where p: "p = (name, t)" by (cases p)
  show ?case
  proof (cases "abort_transition (yield g)")
    case True
    with Cons.prems p have rest: "move_phase ds (yield g) = (Returns u, g')" by simp
    from Cons.IH [OF rest Cons.prems(2)] Cons.prems(2) True show ?thesis
      by (simp add: same_control_def undisturbed_def)
  next
    case False
    with Cons.prems p obtain b g1 where m: "device_move name t (yield g) = (Returns b, g1)"
      and rest: "move_phase ds g1 = (Returns u, g')"
      by (auto simp: Let_def split: prod.splits outcome.splits)
    note ih = Cons.IH [OF rest Cons.prems(2)]
    note q = device_move_effect [OF m]
    from ih q(1) Cons.prems(2) have "undisturbed (yield g)"
      using same_control_undisturbed by blast
    note y = yield_undisturbed [OF this]
    from ih q y p show ?thesis
      by (auto intro: same_control_trans)
  qed
qed

lemma wait_phase_undisturbed:
  assumes "wait_phase (map (\<lambda>i. (i, tf i)) ns) g = (Returns u, g')" and "undisturbed g'"
  shows "same_control g g'
         \<and> (\<forall>d. device_target g' d = (if d \<in> set ns then Some (tf d) else device_target g d))"
  using assms
proof (induction ns arbitrary: g)
  case Nil
  then show ?case by simp
next
  case (Cons n ns)
  let ?g1 = "yield g"
  obtain r1 g2 where w: "(if \<not> abort_transition ?g1 then device_wait n ?g1 else (Returns True, ?g1))
      = (r1, g2)" by (cases "if \<not> abort_transition ?g1 then device_wait n ?g1 else (Returns True, ?g1)")
  with Cons.prems obtain b where r1: "r1 = Returns b"
    by (cases r1) (auto simp: Let_def)
  let ?g3 = "yield g2"
  obtain r4 g4 where s: "(if \<not> abort_transition ?g3 then device_set_target n (Some (tf n)) ?g3
      else (Returns (), ?g3)) = (r4, g4)"
    by (cases "if \<not> abort_transition ?g3 then device_set_target n (Some (tf n)) ?g3 else (Returns (), ?g3)")
  with Cons.prems w r1 obtain v where r4: "r4 = Returns v"
    by (cases r4) (auto simp: Let_def)
  from Cons.prems w r1 s r4 have rest: "wait_phase (map (\<lambda>i. (i, tf i)) ns) g4 = (Returns u, g')"
    by (simp add: Let_def)
  note ih = Cons.IH [OF rest Cons.prems(2)]
  then have u4: "undisturbed g4" using Cons.prems(2) same_control_undisturbed by blast
  have u3: "undisturbed ?g3 \<and> \<not> abort_transition ?g3"
  proof (cases "abort_transition ?g3")
    case True
    with s u4 show ?thesis by (simp add: undisturbed_def)
  next
    case False
    with s r4 have "device_set_target n (Some (tf n)) ?g3 = (Returns v, g4)" by simp
    from device_set_target_effect(1) [OF this] u4 False show ?thesis
      using same_control_undisturbed by blast
  qed
  with s r4 have st: "device_set_target n (Some (tf n)) ?g3 = (Returns v, g4)" by simp
  note q4 = device_set_target_effect [OF st]
  note y3 = yield_undisturbed [OF conjunct1 [OF u3]]
  from y3(1) u3 have u2: "undisturbed g2" using same_control_undisturbed by blast
  have u1: "undisturbed ?g1 \<and> \<not> abort_transition ?g1"
  proof (cases "abort_transition ?g1")
    case True
    with w u2 show ?thesis by (simp add: undisturbed_def)
  next
    case False
    with w r1 have "device_wait n ?g1 = (Returns b, g2)" by simp
    from device_wait_effect(1) [OF this] u2 False show ?thesis
      using same_control_undisturbed by blast
  qed
  with w r1 have wt: "device_wait n ?g1 = (Returns b, g2)" by simp
  note q2 = device_wait_effect [OF wt]
  note y1 = yield_undisturbed [OF conjunct1 [OF u1]]
  have sc: "same_control g g'"
    using y1(1) q2(1) y3(1) q4(1) ih by (blast intro: same_control_trans)
  have "device_target g' d = (if d \<in> set (n # ns) then Some (tf d) else device_target g d)" for d
    using y1(2) q2(2) y3(2) q4(2) ih by auto
  with sc show ?case by blast
qed

lemma step_devices_Inr:
  "step_devices g targets ns = Inr ds \<Longrightarrow>
   ds = map (\<lambda>i. (i, the (map_of targets i))) ns \<and> (\<forall>i\<in>set ns. has_key targets i)"
  by (induction ns arbitrary: ds) (auto simp: has_key_def split: option.splits sum.splits)

lemma move_loop_undisturbed:
  assumes "move_loop targets sq moved g = (Returns r, g')" and "undisturbed g'"
  shows "r = Some (moved @ concat (map item_devices sq)) \<and> same_control g g'
         \<and> (\<forall>d. device_target g' d
                  = (if d \<in> set (concat (map item_devices sq)) then Some (the (map_of targets d))
                     else device_target g d))
         \<and> (\<forall>d\<in>set (concat (map item_devices sq)). has_key targets d)"
  using assms
proof (induction sq arbitrary: g moved)
  case Nil
  then show ?case by simp
next
  case (Cons item sq)
  let ?ns = "item_devices item"
  let ?ds = "map (\<lambda>i. (i, the (map_of targets i))) ?ns"
  have nf: "\<not> fault g"
  proof
    assume "fault g"
    with Cons.prems show False by (simp add: undisturbed_def fault_def)
  qed
  with Cons.prems obtain ds where sd: "step_devices g targets ?ns = Inr ds"
    by (auto split: sum.splits)
  note sdi = step_devices_Inr [OF sd]
  from Cons.prems nf sd sdi obtain u1 g1 u2 g2 where
    mp: "move_phase ?ds g = (Returns u1, g1)" and
    wp: "wait_phase ?ds g1 = (Returns u2, g2)" and
    rest: "move_loop targets sq (moved @ ?ns) (yield g2) = (Returns r, g')"
    by (auto simp: comp_def split: prod.splits outcome.splits)
  note q3 = Cons.IH [OF rest Cons.prems(2)]
  then have "undisturbed (yield g2)" using Cons.prems(2) same_control_undisturbed by blast
  note y = yield_undisturbed [OF this]
  from y(1) \<open>undisturbed (yield g2)\<close> have u2: "undisturbed g2"
    using same_control_undisturbed by blast
  note q2 = wait_phase_undisturbed [OF wp u2]
  then have u1: "undisturbed g1" using u2 same_control_undisturbed by blast
  note q1 = move_phase_undisturbed [OF mp u1]
  have sc: "same_control g g'"
    using q1 q2 y(1) q3 by (blast intro: same_control_trans)
  have tg: "device_target g' d
              = (if d \<in> set (concat (map item_devices (item # sq)))
                 then Some (the (map_of targets d)) else device_target g d)" for d
    using q1 q2 y(2) q3 by (auto simp: image_iff)
  from q3 sdi sc tg show ?case by auto
qed

lemma set_device_position_effect:
  assumes "set_device_position dev position v g = (r, g')"
  shows "same_control g g'" and "devices g' = devices g" and "transitions g' = transitions g"
  using assms
  by (auto simp: set_device_position_def same_control_def commit_def
      split: option.splits dev_class.splits)

lemma write_back_effect:
  assumes "write_back ts g = (r, g')"
  shows "same_control g g' \<and> devices g' = devices g \<and> transitions g' = transitions g"
  using assms
proof (induction ts arbitrary: g)
  case Nil
  then show ?case by simp
next
  case (Cons p ts)
  obtain dev tc where p: "p = (dev, tc)" by (cases p)
  show ?case
  proof (cases "get_update_after tc")
    case False
    with Cons p show ?thesis by simp
  next
    case True
    show ?thesis
    proof (cases "tc_target tc")
      case None
      with Cons.prems p True show ?thesis by auto
    next
      case (Some position)
      show ?thesis
      proof (cases "device_val g dev")
        case (Inl e)
        with Cons.prems p True Some show ?thesis by auto
      next
        case (Inr v)
        obtain r1 g1 where s: "set_device_position dev position v g = (r1, g1)"
          by (cases "set_device_position dev position v g")
        note q = set_device_position_effect [OF s]
        show ?thesis
        proof (cases r1)
          case (Returns b)
          with Cons.prems p True Some Inr s have "write_back ts g1 = (r, g')" by simp
          from Cons.IH [OF this] q show ?thesis by (auto intro: same_control_trans)
        next
          case (Raises e)
          with Cons.prems p True Some Inr s q show ?thesis by auto
        next
          case Hangs
          with Cons.prems p True Some Inr s q show ?thesis by auto
        qed
      qed
    qed
  qed
qed

lemma device_target_clear_targets: "device_target (clear_targets g) d = None"
  by (induction "devices g" arbitrary: g)
     (auto simp: device_target_def clear_targets_def map_of_map [unfolded comp_def] split: option.splits)


lemma device_target_clear_unmoved:
  "device_target (clear_unmoved moved g) d
     = (if d \<in> set moved then device_target g d else None)"
proof -
  have "map_of (map (\<lambda>(n, dev). if n \<in> set moved then (n, dev) else (n, dev\<lparr>dev_target := None\<rparr>)) xs) d
          = map_option (\<lambda>dev. if d \<in> set moved then dev else dev\<lparr>dev_target := None\<rparr>) (map_of xs d)"
    for xs :: "(string \<times> device) list"
    by (induction xs) auto
  then show ?thesis
    by (auto simp: device_target_def clear_unmoved_def split: option.splits)
qed

lemma device_target_set_state:
  "device_target (set_state s force g) d
     = (if (current_state g \<noteq> s \<or> force) \<and> s = init_state g then None else device_target g d)"
  using device_target_clear_targets [of "g\<lparr>current_state := s, next_state := s\<rparr>" d]
  by (auto simp: set_state_def Let_def device_target_def)

lemma map_of_dest_targets:
  "map_of (map (\<lambda>(d, tc). (d, (dest, d))) xs) i = Some t \<Longrightarrow> t = (dest, i)"
  by (induction xs) (auto split: if_splits)

lemma has_key_dest_targets:
  "has_key (map (\<lambda>(d, tc). (d, (dest, d))) xs) i = has_key xs i"
  by (induction xs) (auto simp: has_key_def)

text \<open>
  What a run of \<^verbatim>\<open>_do_transition\<close> from another state has done when it returns with the
  status still Busy and the abort flag clear, whatever the other threads did meanwhile.
\<close>

lemma undisturbed_run:
  assumes origin: "current_state g = origin" "origin \<noteq> dest"
    and sq: "map_of (transitions g) origin = Some ts" "map_of ts dest = Some sq"
    and run: "do_transition_inner dest g = (Returns (), g')"
    and und: "undisturbed g'"
  shows "current_state g' = dest
         \<and> (\<forall>d. device_target g' d
                  = (if dest \<noteq> init_state g \<and> d \<in> set (sequence_devices sq)
                     then Some (dest, d) else None))
         \<and> (\<exists>dest_state. state_config_of g dest = Some dest_state
                \<and> (\<forall>d\<in>set (sequence_devices sq). has_key (state_targets dest_state) d))"
proof -
  have en: "enabled g"
  proof (rule ccontr)
    assume "\<not> enabled g"
    with run have "g' = g" by (simp add: do_transition_inner_def)
    with und \<open>\<not> enabled g\<close> show False by (simp add: undisturbed_def enabled_def)
  qed
  have reach: "reachable_states g None = Inr (origin # map fst ts)"
    using origin sq by (simp add: reachable_states_def)
  have dest_in: "dest \<in> set (origin # map fst ts)"
    using sq(2) by (auto dest!: map_of_SomeD intro: rev_image_eqI)
  from run en reach dest_in origin obtain origin_state dest_state where
    st: "state_config_of g origin = Some origin_state" "state_config_of g dest = Some dest_state"
    by (auto simp: do_transition_inner_def Let_def split: option.splits)
  define g1 where "g1 = g\<lparr>next_state := dest\<rparr>"
  let ?targets = "map (\<lambda>(d, tc). (d, (dest, d))) (state_targets dest_state)"
  obtain r2 g2 where wb: "write_back (state_targets origin_state) g1 = (r2, g2)"
    by (cases "write_back (state_targets origin_state) g1")
  note q2 = write_back_effect [OF wb]
  have c1: "same_control g g1" by (simp add: g1_def same_control_def)
  with q2 have c2: "same_control g g2" by (blast intro: same_control_trans)
  have t2: "transitions g2 = transitions g" "devices g2 = devices g"
    using q2 by (simp_all add: g1_def)
  obtain r3 g3 where ml: "move_loop ?targets sq [] (yield g2) = (r3, g3)"
    by (cases "move_loop ?targets sq [] (yield g2)")
  from run en reach dest_in origin st wb t2 sq ml obtain u where r2: "r2 = Returns u"
    by (cases r2) (auto simp: do_transition_inner_def Let_def g1_def)
  from run en reach dest_in origin st wb t2 sq ml r2 obtain r where r3: "r3 = Returns r"
    by (cases r3) (auto simp: do_transition_inner_def Let_def g1_def)
  have g'_cases: "g' = (case r of None \<Rightarrow> g3
      | Some moved \<Rightarrow> clear_unmoved moved
          (if \<not> fault g3 \<and> \<not> abort_transition g3 then set_state dest False g3 else g3))"
    using run en reach dest_in origin st wb t2 sq ml r2 r3
    by (auto simp: do_transition_inner_def Let_def g1_def split: option.splits)
  have u3: "undisturbed g3"
    using und unfolding g'_cases
    by (auto simp: undisturbed_def clear_unmoved_def set_state_def clear_targets_def Let_def
        split: option.splits if_splits)
  note q3 = move_loop_undisturbed [OF ml [unfolded r3] u3]
  let ?moved = "concat (map item_devices sq)"
  from q3 have r: "r = Some ?moved" by simp
  from q3 u3 have uy: "undisturbed (yield g2)" using same_control_undisturbed by blast
  note y = yield_undisturbed [OF uy]
  from c2 y(1) q3 have c3: "same_control g g3" by (blast intro: same_control_trans)
  from u3 c3 origin have g3: "\<not> fault g3" "\<not> abort_transition g3" "current_state g3 = origin"
    "init_state g3 = init_state g"
    by (simp_all add: same_control_def fault_def undisturbed_def)
  have g': "g' = clear_unmoved ?moved (set_state dest False g3)"
    using g'_cases r g3 by simp
  have cur: "current_state g' = dest"
    using g3 origin by (simp add: g' clear_unmoved_def set_state_def clear_targets_def Let_def)
  have tg: "device_target g' d
              = (if dest \<noteq> init_state g \<and> d \<in> set (sequence_devices sq)
                 then Some (dest, d) else None)" for d
  proof (cases "d \<in> set ?moved")
    case True
    with q3 have "has_key ?targets d" by blast
    then obtain t where "map_of ?targets d = Some t" by (auto simp: has_key_def)
    with map_of_dest_targets [OF this] have "the (map_of ?targets d) = (dest, d)" by simp
    with True q3 have "device_target g3 d = Some (dest, d)" by simp
    with True g3 origin show ?thesis
      by (simp add: g' device_target_clear_unmoved device_target_set_state sequence_devices_def)
  next
    case False
    then show ?thesis
      by (simp add: g' device_target_clear_unmoved sequence_devices_def)
  qed
  have "\<forall>d\<in>set (sequence_devices sq). has_key (state_targets dest_state) d"
    using q3 by (simp add: sequence_devices_def has_key_dest_targets)
  with cur tg st show ?thesis by blast
qed

text \<open>
  Claim C1, as the code has it. Let \<^verbatim>\<open>_do_transition(dest)\<close> run from another state
  \<open>origin\<close> and return without an exception, neither aborted nor faulted: the status is
  still the Busy that \<^verbatim>\<open>do_transition\<close> has set and the abort flag is clear, the other
  threads having done what they would. Then the current state is \<open>dest\<close>; when
  \<open>dest\<close> is not the initial state, every device named in the sequence of the
  transition has the target \<open>dest\<close> gives it as its current target, and every other
  device has none; when \<open>dest\<close> is the initial state, no device has a current target.
  The devices of the sequence are all among the targets of \<open>dest\<close>.
\<close>

theorem successful_transition_targets:
  assumes "current_state g = origin" and "origin \<noteq> dest"
    and "map_of (transitions g) origin = Some ts" and "map_of ts dest = Some sq"
    and "do_transition_inner dest g = (Returns (), g')"
    and "status g' = Busy" and "\<not> abort_transition g'"
  shows "current_state g' = dest
         \<and> (\<forall>d. device_target g' d
                  = (if dest \<noteq> init_state g \<and> d \<in> set (sequence_devices sq)
                     then Some (dest, d) else None))
         \<and> (\<exists>dest_state. state_config_of g dest = Some dest_state
                \<and> (\<forall>d\<in>set (sequence_devices sq). has_key (state_targets dest_state) d))"
  using assms undisturbed_run [of g origin dest ts sq g']
  by (simp add: undisturbed_def)

lemmas supervisor_defs = worker_step_def check_fault_state_def device_connected_def
  device_alarmed_def device_homed_def update_device_def stop_all

text \<open>
  The transition from \<open>Off\<close> to \<open>On\<close> whose sequence names the valve only, with the
  valve closed at first and open by the time its target is assigned, and the supervisor
  scanning the devices three times on the way.
\<close>

theorem successful_transition_targets_witness:
  "current_state (snd (do_transition_inner ''On'' moving_governor)) = ''On''
   \<and> device_target (snd (do_transition_inner ''On'' moving_governor)) ''valve''
       = Some (''On'', ''valve'')
   \<and> device_target (snd (do_transition_inner ''On'' moving_governor)) ''motor'' = None"
proof -
  let ?g = "moving_governor"
  have run: "do_transition_inner ''On'' ?g = (Returns (), snd (do_transition_inner ''On'' ?g))"
    "status (snd (do_transition_inner ''On'' ?g)) = Busy"
    "\<not> abort_transition (snd (do_transition_inner ''On'' ?g))"
    by (simp_all add: prod_eq_iff moving_governor_def run_defs supervisor_defs
        partial_governor_def partial_config_def gov_example_defs example_defs)
  have pre: "current_state ?g = ''Off''" "''Off'' \<noteq> ''On''"
    "map_of (transitions ?g) ''Off'' = Some [(''On'', [Single ''valve''])]"
    "map_of [(''On'', [Single ''valve''])] ''On'' = Some [Single ''valve'']"
    by (simp_all add: moving_governor_def partial_governor_def example_governor_def)
  have "init_state ?g = ''Off''"
    by (simp add: moving_governor_def partial_governor_def example_governor_def)
  with successful_transition_targets [OF pre run] show ?thesis
    by (simp add: sequence_devices_def)
qed

text \<open>
  Claim C1 as stated fails twice on that configuration. After the transition to \<open>On\<close>
  has succeeded, the motor, which is among the targets of \<open>On\<close> and not in the sequence,
  has no current target. After the transition back to the initial state \<open>Off\<close> has
  succeeded, the valve, which that transition has moved to the target \<open>Off\<close> gives it,
  has no current target.
\<close>

theorem destination_target_left_unassigned:
  "check_config partial_config = (Inr True, [])
   \<and> new_governor example_plant partial_config = Inr partial_governor
   \<and> fst (do_transition ''On'' partial_governor) = Returns ()
   \<and> current_state partial_on = ''On'' \<and> status partial_on = Idle \<and> queue partial_on = []
   \<and> state_config_of partial_on ''On'' = Some on_state
   \<and> has_key (state_targets on_state) ''motor''
   \<and> device_target partial_on ''motor'' = None
   \<and> fst (do_transition ''Off'' partial_on) = Returns ()
   \<and> current_state partial_off = ''Off'' \<and> status partial_off = Idle \<and> queue partial_off = []
   \<and> target_config_of partial_off (''Off'', ''valve'')
       = Some \<lparr>tc_target = Some (Str ''Closed''), tc_limits = Some [0, 1], tc_updateAfter = None\<rparr>
   \<and> trace partial_off = [Move ''valve'' (''On'', ''valve''), Wait ''valve'',
                           Move ''valve'' (''Off'', ''valve''), Wait ''valve'']
   \<and> device_target partial_off ''valve'' = None"
proof -
  have "check_config partial_config = (Inr True, [])"
    by (simp add: check_config_def check_defs example_defs partial_config_def)
  moreover have "new_governor example_plant partial_config = Inr partial_governor"
    by (simp add: new_governor_def parse_config_def partial_config_def partial_governor_def
        example_defs gov_example_defs make_transitions_def)
  moreover have "state_config_of partial_on ''On'' = Some on_state"
    "has_key (state_targets on_state) ''motor''"
    by (simp_all add: partial_on_def run_defs partial_governor_def partial_config_def
        gov_example_defs example_defs has_key_def)
  moreover have "fst (do_transition ''On'' partial_governor) = Returns ()"
    "current_state partial_on = ''On''" "status partial_on = Idle" "queue partial_on = []"
    "device_target partial_on ''motor'' = None"
    by (simp_all add: partial_on_def run_defs partial_governor_def partial_config_def
        gov_example_defs example_defs)
  moreover have "fst (do_transition ''Off'' partial_on) = Returns ()"
    "current_state partial_off = ''Off''" "status partial_off = Idle" "queue partial_off = []"
    "target_config_of partial_off (''Off'', ''valve'')
       = Some \<lparr>tc_target = Some (Str ''Closed''), tc_limits = Some [0, 1], tc_updateAfter = None\<rparr>"
    "trace partial_off = [Move ''valve'' (''On'', ''valve''), Wait ''valve'',
                          Move ''valve'' (''Off'', ''valve''), Wait ''valve'']"
    "device_target partial_off ''valve'' = None"
    by (simp_all add: partial_off_def partial_on_def run_defs partial_governor_def
        partial_config_def gov_example_defs example_defs)
  ultimately show ?thesis by simp
qed

subsection \<open>A transition to the current state, and a second call\<close>




end
